theory Spec2Isabelle
  imports Main "HOL-Library.Multiset"
begin

section \<open>The host IR\<close>

text \<open>
  The translator of \<^verbatim>\<open>cfg_translator.cpp\<close> works on an LLVM function. The part of
  LLVM it touches is modelled here: a function is the ordered list of its basic blocks,
  a basic block is an identity (the \<^verbatim>\<open>BasicBlock*\<close>), a name and the ordered list
  of its instructions. Values are opaque; a null pointer is \<open>None\<close>.
\<close>

type_synonym bb = nat

datatype val = Value nat | UndefValue

datatype instr =
    PHINode nat "(val \<times> bb) list"
  | CallInst "string option" "bb list"
  | OtherInst nat
  | BranchInst bb
  | CondBranchInst val bb bb
  | ReturnInst "val option"
  | UnreachableInst
  | SwitchInst val bb "(val \<times> bb) list"
  | OtherTerminator nat

text \<open>
  \<open>PHINode p inc\<close> is the phi with identity \<open>p\<close> and incoming (value, block) pairs;
  \<open>CallInst f ls\<close> is a call of the function named \<open>f\<close> (\<open>None\<close> for an indirect
  call, where \<^verbatim>\<open>getCalledFunction()\<close> is null) with the basic blocks \<open>ls\<close> among its
  operands; \<open>SwitchInst c d cs\<close> has the default destination \<open>d\<close> and the cases
  \<open>cs\<close>; \<open>OtherTerminator\<close> stands for every terminator the translator does not know
  (invoke, indirectbr, resume, ...).
\<close>

fun isTerminator :: "instr \<Rightarrow> bool" where
  "isTerminator (BranchInst b) = True"
| "isTerminator (CondBranchInst c t f) = True"
| "isTerminator (ReturnInst r) = True"
| "isTerminator UnreachableInst = True"
| "isTerminator (SwitchInst c d cs) = True"
| "isTerminator (OtherTerminator k) = True"
| "isTerminator i = False"

fun isPHI :: "instr \<Rightarrow> bool" where
  "isPHI (PHINode p inc) = True"
| "isPHI i = False"

record basic_block =
  bb_id :: bb
  bb_name :: string
  bb_instrs :: "instr list"

record host =
  fn_blocks :: "basic_block list"
  module_functions :: "string list"

text \<open>\<^verbatim>\<open>BasicBlock::getTerminator\<close>: the last instruction when it is a terminator.\<close>

definition getTerminator :: "instr list \<Rightarrow> instr option" where
  "getTerminator xs = (if xs \<noteq> [] \<and> isTerminator (last xs) then Some (last xs) else None)"

text \<open>\<^verbatim>\<open>getPrevNode\<close> of the last instruction of a block.\<close>

definition prev_of_last :: "instr list \<Rightarrow> instr option" where
  "prev_of_last xs = (if 2 \<le> length xs then Some (xs ! (length xs - 2)) else None)"

fun find_bb :: "basic_block list \<Rightarrow> bb \<Rightarrow> basic_block option" where
  "find_bb [] b = None"
| "find_bb (x # xs) b = (if bb_id x = b then Some x else find_bb xs b)"

definition instrs_of :: "basic_block list \<Rightarrow> bb \<Rightarrow> instr list option" where
  "instrs_of F b = map_option bb_instrs (find_bb F b)"

definition terminator_of :: "basic_block list \<Rightarrow> bb \<Rightarrow> instr option" where
  "terminator_of F b = (case instrs_of F b of None \<Rightarrow> None | Some xs \<Rightarrow> getTerminator xs)"

definition upd_instrs :: "bb \<Rightarrow> (instr list \<Rightarrow> instr list) \<Rightarrow> basic_block list \<Rightarrow> basic_block list" where
  "upd_instrs b f F = map (\<lambda>x. if bb_id x = b then x\<lparr>bb_instrs := f (bb_instrs x)\<rparr> else x) F"

text \<open>Creating an instruction at the end of a block, and before the terminator of a block.\<close>

definition insert_at_end :: "bb \<Rightarrow> instr \<Rightarrow> basic_block list \<Rightarrow> basic_block list" where
  "insert_at_end b i F = upd_instrs b (\<lambda>xs. xs @ [i]) F"

definition insert_before_terminator :: "bb \<Rightarrow> instr \<Rightarrow> basic_block list \<Rightarrow> basic_block list" where
  "insert_before_terminator b i F = upd_instrs b (\<lambda>xs. butlast xs @ [i, last xs]) F"

text \<open>\<^verbatim>\<open>eraseFromParent\<close> of the terminator of a block.\<close>

definition erase_terminator :: "bb \<Rightarrow> basic_block list \<Rightarrow> basic_block list" where
  "erase_terminator b F = upd_instrs b butlast F"

text \<open>
  \<^verbatim>\<open>BasicBlock::Create(ctx, name, &F, before)\<close>: a block with a new identity is linked in
  front of the block \<open>before\<close>, or at the end of the function when \<open>before\<close> is null.
\<close>

definition fresh_bb :: "basic_block list \<Rightarrow> bb" where
  "fresh_bb F = Suc (fold max (map bb_id F) 0)"

fun insert_block_before :: "bb option \<Rightarrow> basic_block \<Rightarrow> basic_block list \<Rightarrow> basic_block list" where
  "insert_block_before None n F = F @ [n]"
| "insert_block_before (Some b) n [] = [n]"
| "insert_block_before (Some b) n (x # xs) =
     (if bb_id x = b then n # x # xs else x # insert_block_before (Some b) n xs)"

fun getNextNode :: "basic_block list \<Rightarrow> bb \<Rightarrow> bb option" where
  "getNextNode [] b = None"
| "getNextNode [x] b = None"
| "getNextNode (x # y # xs) b = (if bb_id x = b then Some (bb_id y) else getNextNode (y # xs) b)"

definition BasicBlock_Create :: "string \<Rightarrow> bb option \<Rightarrow> basic_block list \<Rightarrow> bb \<times> basic_block list" where
  "BasicBlock_Create nm before F =
     (let n = fresh_bb F
      in (n, insert_block_before before \<lparr>bb_id = n, bb_name = nm, bb_instrs = []\<rparr> F))"

section \<open>The CFG nodes\<close>

text \<open>
  The declarations of \<^verbatim>\<open>CFGNode\<close>, \<^verbatim>\<open>Terminator\<close>, \<^verbatim>\<open>PHI\<close>, \<^verbatim>\<open>IncomingValue\<close> and
  \<^verbatim>\<open>MergeInfo\<close> are read off their uses in the translator. A \<^verbatim>\<open>CFGNode*\<close> is
  modelled by the identity of the basic block the node was created for (\<^verbatim>\<open>CFGNode::BB\<close>
  is bound once, one node per block), so \<^verbatim>\<open>n->BB\<close> of a node reference \<open>n\<close> is \<open>n\<close>
  itself and the pool is the list of nodes in the order of \<^verbatim>\<open>for_each_node\<close>. The
  successor and predecessor lists kept by \<^verbatim>\<open>add_branch\<close> are left out: emission never
  reads them.
\<close>

datatype terminator_type = Condition | Branch | Return | Unreachable | Kill | Switch

datatype merge_type = MergeNone | Selection | Loop

record terminator_case =
  case_node :: bb
  case_value :: "val option"
  is_default :: bool

record terminator =
  ttype :: terminator_type
  condition :: "val option"
  true_block :: "bb option"
  false_block :: "bb option"
  direct_block :: "bb option"
  return_value :: "val option"
  cases :: "terminator_case list"

record incoming_value =
  block :: bb
  ivalue :: val

record phi_record =
  phi :: nat
  incoming :: "incoming_value list"

record merge_info =
  merge_block :: "bb option"
  continue_block :: "bb option"

record cfg_node =
  name :: string
  BB :: bb
  ir_operations :: "instr list"
  ir_phi :: "phi_record list"
  ir_terminator :: terminator
  ir_merge_info :: merge_info
  merge :: merge_type
  selection_merge_block :: "bb option"
  selection_merge_exit :: bool
  phi_override :: "bb option"

datatype error =
    UnsupportedTerminator
  | OutOfRange
  | NullPointer
  | NoDefaultCase
  | NoDiscardFunction
  | ConditionAssert
  | BranchAssert
  | MissingTerminator
  | UnknownTerminator
  | EmptyBlock
  | PhiNotFound
  | PhiIncomingEmpty
  | PhiIncomingUnreachable
  | InvalidBasicBlockArgument
  | UnreachableStillUsed
  | ExitMergeOnSwitch
  | InvalidTerminator
  | InvalidSelectionMerge
  | InvalidLoopMerge

section \<open>Import\<close>

text \<open>
  \<^verbatim>\<open>get_terminator_type\<close> gets the instruction and looks at the instruction before it;
  the model is given both. The final \<^verbatim>\<open>assert(false); abort()\<close> is the error
  \<open>UnsupportedTerminator\<close>. \<^verbatim>\<open>CI->getCalledFunction()->getName()\<close> on an indirect
  call dereferences a null pointer.
\<close>

fun get_terminator_type :: "instr option \<Rightarrow> instr \<Rightarrow> error + terminator_type" where
  "get_terminator_type prev (CondBranchInst c t f) = Inr Condition"
| "get_terminator_type prev (BranchInst b) = Inr Branch"
| "get_terminator_type prev (ReturnInst r) = Inr Return"
| "get_terminator_type (Some (CallInst None ls)) UnreachableInst = Inl NullPointer"
| "get_terminator_type (Some (CallInst (Some f) ls)) UnreachableInst =
     (if f = ''floor.discard_fragment'' then Inr Kill else Inr Unreachable)"
| "get_terminator_type prev UnreachableInst = Inr Unreachable"
| "get_terminator_type prev (SwitchInst c d cs) = Inr Switch"
| "get_terminator_type prev i = Inl UnsupportedTerminator"

definition supported_terminator :: "instr \<Rightarrow> bool" where
  "supported_terminator i =
     (case i of CondBranchInst c t f \<Rightarrow> True | BranchInst b \<Rightarrow> True | ReturnInst r \<Rightarrow> True
      | UnreachableInst \<Rightarrow> True | SwitchInst c d cs \<Rightarrow> True | _ \<Rightarrow> False)"


text \<open>
  \<^verbatim>\<open>translate_bb\<close>. \<^verbatim>\<open>bb_map.at\<close> throws for a block that has no node; \<open>ids\<close> are
  the blocks of the function. A phi keeps, for each incoming block, the first entry
  only (\<open>phi_bbs\<close> is the set of blocks seen so far).
\<close>

definition bb_map_at :: "bb list \<Rightarrow> bb \<Rightarrow> error + bb" where
  "bb_map_at ids b = (if b \<in> set ids then Inr b else Inl OutOfRange)"

fun translate_incoming :: "bb list \<Rightarrow> bb list \<Rightarrow> (val \<times> bb) list \<Rightarrow> error + incoming_value list" where
  "translate_incoming ids phi_bbs [] = Inr []"
| "translate_incoming ids phi_bbs ((v, b) # rest) =
     (if b \<in> set phi_bbs then translate_incoming ids phi_bbs rest
      else case bb_map_at ids b of
             Inl e \<Rightarrow> Inl e
           | Inr n \<Rightarrow>
               (case translate_incoming ids (b # phi_bbs) rest of
                  Inl e \<Rightarrow> Inl e
                | Inr r \<Rightarrow> Inr (\<lparr>block = n, ivalue = v\<rparr> # r)))"

fun translate_cases :: "bb list \<Rightarrow> (val \<times> bb) list \<Rightarrow> error + terminator_case list" where
  "translate_cases ids [] = Inr []"
| "translate_cases ids ((v, b) # rest) =
     (case bb_map_at ids b of
        Inl e \<Rightarrow> Inl e
      | Inr n \<Rightarrow>
          (case translate_cases ids rest of
             Inl e \<Rightarrow> Inl e
           | Inr r \<Rightarrow> Inr (\<lparr>case_node = n, case_value = Some v, is_default = False\<rparr> # r)))"

fun translate_terminator :: "bb list \<Rightarrow> terminator_type \<Rightarrow> instr \<Rightarrow> terminator \<Rightarrow> error + terminator" where
  "translate_terminator ids Condition (CondBranchInst c t f) term =
     (case bb_map_at ids t of
        Inl e \<Rightarrow> Inl e
      | Inr tn \<Rightarrow>
          (case bb_map_at ids f of
             Inl e \<Rightarrow> Inl e
           | Inr fn \<Rightarrow>
               Inr (term\<lparr>ttype := Condition, condition := Some c,
                          true_block := Some tn, false_block := Some fn\<rparr>)))"
| "translate_terminator ids Branch (BranchInst b) term =
     (case bb_map_at ids b of
        Inl e \<Rightarrow> Inl e
      | Inr n \<Rightarrow> Inr (term\<lparr>ttype := Branch, direct_block := Some n\<rparr>))"
| "translate_terminator ids Return (ReturnInst r) term =
     Inr (term\<lparr>ttype := Return, return_value := r\<rparr>)"
| "translate_terminator ids Switch (SwitchInst c d cs) term =
     (case bb_map_at ids d of
        Inl e \<Rightarrow> Inl e
      | Inr dn \<Rightarrow>
          (case translate_cases ids cs of
             Inl e \<Rightarrow> Inl e
           | Inr r \<Rightarrow>
               Inr (term\<lparr>ttype := Switch, condition := Some c,
                          cases := cases term @
                            \<lparr>case_node = dn, case_value = None, is_default = True\<rparr> # r\<rparr>)))"
| "translate_terminator ids ty i term = Inr (term\<lparr>ttype := ty\<rparr>)"

definition translate_instr :: "bb list \<Rightarrow> instr option \<Rightarrow> instr \<Rightarrow> cfg_node \<Rightarrow> error + cfg_node" where
  "translate_instr ids prev i node =
     (case i of
        PHINode p inc \<Rightarrow>
          (case translate_incoming ids [] inc of
             Inl e \<Rightarrow> Inl e
           | Inr r \<Rightarrow> Inr (node\<lparr>ir_phi := ir_phi node @ [\<lparr>phi = p, incoming = r\<rparr>]\<rparr>))
      | _ \<Rightarrow>
          if isTerminator i then
            (case get_terminator_type prev i of
               Inl e \<Rightarrow> Inl e
             | Inr ty \<Rightarrow>
                 (case translate_terminator ids ty i (ir_terminator node) of
                    Inl e \<Rightarrow> Inl e
                  | Inr term \<Rightarrow> Inr (node\<lparr>ir_terminator := term\<rparr>)))
          else Inr (node\<lparr>ir_operations := ir_operations node @ [i]\<rparr>))"

fun translate_instrs :: "bb list \<Rightarrow> instr option \<Rightarrow> instr list \<Rightarrow> cfg_node \<Rightarrow> error + cfg_node" where
  "translate_instrs ids prev [] node = Inr node"
| "translate_instrs ids prev (i # rest) node =
     (case translate_instr ids prev i node of
        Inl e \<Rightarrow> Inl e
      | Inr node' \<Rightarrow> translate_instrs ids (Some i) rest node')"

definition translate_bb :: "basic_block list \<Rightarrow> cfg_node \<Rightarrow> error + cfg_node" where
  "translate_bb F node =
     (case instrs_of F (BB node) of
        None \<Rightarrow> Inl NullPointer
      | Some xs \<Rightarrow> translate_instrs (map bb_id F) None xs node)"

section \<open>Emission\<close>

subsection \<open>Merge markers\<close>

text \<open>
  \<^verbatim>\<open>insert_before\<close> is at every call the terminator of a block; the model is given
  that block. \<^verbatim>\<open>getOrInsertFunction\<close> declares a marker function on first use.
\<close>

definition getOrInsertFunction :: "string \<Rightarrow> string list \<Rightarrow> string list" where
  "getOrInsertFunction f fs = (if f \<in> set fs then fs else fs @ [f])"

definition insert_merge_block_marker :: "host \<Rightarrow> bb \<Rightarrow> error + host" where
  "insert_merge_block_marker h merge_bb =
     (let fs = getOrInsertFunction ''floor.merge_block'' (module_functions h)
      in case terminator_of (fn_blocks h) merge_bb of
           None \<Rightarrow> Inl MissingTerminator
         | Some t \<Rightarrow>
             Inr \<lparr>fn_blocks = insert_before_terminator merge_bb
                                (CallInst (Some ''floor.merge_block'') []) (fn_blocks h),
                  module_functions = fs\<rparr>)"

definition insert_continue_block_marker :: "host \<Rightarrow> bb \<Rightarrow> error + host" where
  "insert_continue_block_marker h continue_bb =
     (let fs = getOrInsertFunction ''floor.continue_block'' (module_functions h)
      in case terminator_of (fn_blocks h) continue_bb of
           None \<Rightarrow> Inl MissingTerminator
         | Some t \<Rightarrow>
             Inr \<lparr>fn_blocks = insert_before_terminator continue_bb
                                (CallInst (Some ''floor.continue_block'') []) (fn_blocks h),
                  module_functions = fs\<rparr>)"

definition create_loop_merge :: "host \<Rightarrow> bb \<Rightarrow> bb \<Rightarrow> bb \<Rightarrow> error + host" where
  "create_loop_merge h header bb_merge bb_continue =
     (let fs = getOrInsertFunction ''floor.loop_merge'' (module_functions h)
      in case terminator_of (fn_blocks h) header of
           None \<Rightarrow> Inl MissingTerminator
         | Some t \<Rightarrow>
             (case insert_merge_block_marker
                     \<lparr>fn_blocks = insert_before_terminator header
                                    (CallInst (Some ''floor.loop_merge'') [bb_merge, bb_continue])
                                    (fn_blocks h),
                      module_functions = fs\<rparr> bb_merge of
                Inl e \<Rightarrow> Inl e
              | Inr h1 \<Rightarrow> insert_continue_block_marker h1 bb_continue))"

definition create_selection_merge :: "host \<Rightarrow> bb \<Rightarrow> bb \<Rightarrow> error + host" where
  "create_selection_merge h header merge_bb =
     (let fs = getOrInsertFunction ''floor.selection_merge'' (module_functions h)
      in case terminator_of (fn_blocks h) header of
           None \<Rightarrow> Inl MissingTerminator
         | Some t \<Rightarrow>
             insert_merge_block_marker
               \<lparr>fn_blocks = insert_before_terminator header
                              (CallInst (Some ''floor.selection_merge'') [merge_bb]) (fn_blocks h),
                module_functions = fs\<rparr> merge_bb)"

subsection \<open>Terminators\<close>

definition needs_fake_selection :: "cfg_node \<Rightarrow> bool" where
  "needs_fake_selection node =
     (merge node = Loop \<and>
      ttype (ir_terminator node) = Condition \<and>
      true_block (ir_terminator node) \<noteq> merge_block (ir_merge_info node) \<and>
      true_block (ir_terminator node) \<noteq> continue_block (ir_merge_info node) \<and>
      false_block (ir_terminator node) \<noteq> merge_block (ir_merge_info node) \<and>
      false_block (ir_terminator node) \<noteq> continue_block (ir_merge_info node))"

definition erase_existing_terminator :: "bb \<Rightarrow> basic_block list \<Rightarrow> basic_block list" where
  "erase_existing_terminator b F =
     (case terminator_of F b of None \<Rightarrow> F | Some t \<Rightarrow> erase_terminator b F)"

definition default_case_bb :: "terminator_case list \<Rightarrow> bb option" where
  "default_case_bb cs = map_option case_node (find is_default cs)"

text \<open>The \<^verbatim>\<open>addCase\<close> loop: every case that is not the default, in the order of the record.\<close>

fun switch_cases :: "terminator_case list \<Rightarrow> error + (val \<times> bb) list" where
  "switch_cases [] = Inr []"
| "switch_cases (c # cs) =
     (if is_default c then switch_cases cs
      else case case_value c of
             None \<Rightarrow> Inl NullPointer
           | Some v \<Rightarrow>
               (case switch_cases cs of
                  Inl e \<Rightarrow> Inl e
                | Inr r \<Rightarrow> Inr ((v, case_node c) # r)))"

text \<open>
  The \<open>Kill\<close> branch: a call of \<^verbatim>\<open>floor.discard_fragment\<close> is created unless the
  block already ends in one.
\<close>

definition create_discard_fragment :: "instr list \<Rightarrow> error + bool" where
  "create_discard_fragment xs =
     (if xs = [] then Inr True
      else case last xs of
             CallInst None ls \<Rightarrow> Inl NullPointer
           | CallInst (Some f) ls \<Rightarrow> Inr (f \<noteq> ''floor.discard_fragment'')
           | _ \<Rightarrow> Inr True)"

definition add_or_update_terminator :: "host \<Rightarrow> cfg_node \<Rightarrow> error + (host \<times> cfg_node)" where
  "add_or_update_terminator h node =
     (let b = BB node;
          term = ir_terminator node;
          F0 = erase_existing_terminator b (fn_blocks h)
      in case ttype term of
           Condition \<Rightarrow>
             (case condition term of
                None \<Rightarrow> Inl NullPointer
              | Some c \<Rightarrow>
             (case true_block term of
                None \<Rightarrow> Inl NullPointer
              | Some t \<Rightarrow>
             (case false_block term of
                None \<Rightarrow> Inl NullPointer
              | Some f \<Rightarrow>
                  if needs_fake_selection node then
                    (let (fake_selection_bb, F1) =
                           BasicBlock_Create (name node @ ''.fake_selection'') (getNextNode F0 b) F0;
                         (unreachable_bb, F2) =
                           BasicBlock_Create (name node @ ''.unreachable'') (getNextNode F1 b) F1;
                         F3 = insert_at_end b (BranchInst fake_selection_bb) F2;
                         F4 = insert_at_end unreachable_bb UnreachableInst F3;
                         F5 = insert_at_end fake_selection_bb (CondBranchInst c t f) F4
                     in case create_selection_merge (h\<lparr>fn_blocks := F5\<rparr>)
                               fake_selection_bb unreachable_bb of
                          Inl e \<Rightarrow> Inl e
                        | Inr h' \<Rightarrow> Inr (h', node\<lparr>phi_override := Some fake_selection_bb\<rparr>))
                  else Inr (h\<lparr>fn_blocks := insert_at_end b (CondBranchInst c t f) F0\<rparr>, node))))
         | Branch \<Rightarrow>
             (case direct_block term of
                None \<Rightarrow> Inl NullPointer
              | Some d \<Rightarrow> Inr (h\<lparr>fn_blocks := insert_at_end b (BranchInst d) F0\<rparr>, node))
         | Return \<Rightarrow>
             Inr (h\<lparr>fn_blocks := insert_at_end b (ReturnInst (return_value term)) F0\<rparr>, node)
         | Kill \<Rightarrow>
             (case instrs_of F0 b of
                None \<Rightarrow> Inl NullPointer
              | Some xs \<Rightarrow>
                  (case create_discard_fragment xs of
                     Inl e \<Rightarrow> Inl e
                   | Inr True \<Rightarrow>
                       if ''floor.discard_fragment'' \<in> set (module_functions h) then
                         Inr (h\<lparr>fn_blocks := insert_at_end b UnreachableInst
                                  (insert_at_end b (CallInst (Some ''floor.discard_fragment'') []) F0)\<rparr>,
                              node)
                       else Inl NoDiscardFunction
                   | Inr False \<Rightarrow>
                       Inr (h\<lparr>fn_blocks := insert_at_end b UnreachableInst F0\<rparr>, node)))
         | Unreachable \<Rightarrow>
             Inr (h\<lparr>fn_blocks := insert_at_end b UnreachableInst F0\<rparr>, node)
         | Switch \<Rightarrow>
             (case default_case_bb (cases term) of
                None \<Rightarrow> Inl NoDefaultCase
              | Some default_bb \<Rightarrow>
                  (case condition term of
                     None \<Rightarrow> Inl NullPointer
                   | Some c \<Rightarrow>
                       (case switch_cases (cases term) of
                          Inl e \<Rightarrow> Inl e
                        | Inr cs \<Rightarrow>
                            Inr (h\<lparr>fn_blocks := insert_at_end b (SwitchInst c default_bb cs) F0\<rparr>,
                                 node)))))"

text \<open>
  The comparison of an existing host terminator with the terminator record, in the first
  loop of \<^verbatim>\<open>cfg_to_llvm_ir\<close>. \<open>cases_equal\<close> is the loop over
  \<^verbatim>\<open>i < sw->getNumCases()\<close> that compares host case \<open>i\<close> with \<^verbatim>\<open>cases[i]\<close> of the
  record; \<open>operands_equal\<close> is the \<^verbatim>\<open>switch (term_type)\<close>, true when no branch of it
  calls \<^verbatim>\<open>add_or_update_terminator\<close>.
\<close>

fun cases_equal :: "(val \<times> bb) list \<Rightarrow> terminator_case list \<Rightarrow> bool" where
  "cases_equal ((v, b) # rest) (c # cs) =
     (b = case_node c \<and> Some v = case_value c \<and> cases_equal rest cs)"
| "cases_equal hs cs = True"

definition operands_equal :: "instr \<Rightarrow> terminator \<Rightarrow> error + bool" where
  "operands_equal t term =
     (case t of
        CondBranchInst c s0 s1 \<Rightarrow>
          (case true_block term of
             None \<Rightarrow> Inl ConditionAssert
           | Some tb \<Rightarrow>
               (case false_block term of
                  None \<Rightarrow> Inl ConditionAssert
                | Some fb \<Rightarrow> Inr (Some c = condition term \<and> s0 = tb \<and> s1 = fb)))
      | BranchInst s \<Rightarrow>
          (case direct_block term of
             None \<Rightarrow> Inl BranchAssert
           | Some d \<Rightarrow> Inr (s = d))
      | ReturnInst r \<Rightarrow> Inr (r = return_value term)
      | SwitchInst c d cs \<Rightarrow>
          (case default_case_bb (cases term) of
             None \<Rightarrow> Inl NoDefaultCase
           | Some default_bb \<Rightarrow>
               Inr (d = default_bb \<and> Some c = condition term \<and>
                    length cs = length (cases term) \<and> cases_equal cs (cases term)))
      | _ \<Rightarrow> Inr True)"

text \<open>
  \<open>keeps_terminator xs node\<close>: the block with the instructions \<open>xs\<close> has a terminator
  and the loop leaves it in place. Otherwise \<^verbatim>\<open>add_or_update_terminator\<close> runs.
\<close>

definition keeps_terminator :: "instr list \<Rightarrow> cfg_node \<Rightarrow> error + bool" where
  "keeps_terminator xs node =
     (case getTerminator xs of
        None \<Rightarrow> Inr False
      | Some t \<Rightarrow>
          (case get_terminator_type (prev_of_last xs) t of
             Inl e \<Rightarrow> Inl e
           | Inr term_type \<Rightarrow>
               if term_type \<noteq> ttype (ir_terminator node) \<or> needs_fake_selection node
               then Inr False
               else operands_equal t (ir_terminator node)))"

definition update_terminator :: "host \<Rightarrow> cfg_node \<Rightarrow> error + (host \<times> cfg_node)" where
  "update_terminator h node =
     (case keeps_terminator (case instrs_of (fn_blocks h) (BB node) of None \<Rightarrow> [] | Some xs \<Rightarrow> xs)
             node of
        Inl e \<Rightarrow> Inl e
      | Inr True \<Rightarrow> Inr (h, node)
      | Inr False \<Rightarrow> add_or_update_terminator h node)"


subsection \<open>Reachability\<close>

text \<open>
  The successors that \<^verbatim>\<open>compute_simple_reachability\<close> visits; \<open>None\<close> is the
  assertion on a terminator of another kind.
\<close>

fun visited_successors :: "instr \<Rightarrow> bb list option" where
  "visited_successors (BranchInst b) = Some [b]"
| "visited_successors (CondBranchInst c t f) = Some [t, f]"
| "visited_successors (SwitchInst c d cs) = Some (d # map snd cs)"
| "visited_successors (ReturnInst r) = Some []"
| "visited_successors UnreachableInst = Some []"
| "visited_successors i = None"

text \<open>
  The recursive lambda with its shared set \<^verbatim>\<open>reachable_blocks\<close>, written with the
  pending calls as an explicit stack: the blocks are marked in the same order.
\<close>

function compute_simple_reachability ::
  "basic_block list \<Rightarrow> bb list \<Rightarrow> bb list \<Rightarrow> error + bb list" where
  "compute_simple_reachability F [] reachable_blocks = Inr reachable_blocks"
| "compute_simple_reachability F (b # stack) reachable_blocks =
     (if b \<in> set reachable_blocks then compute_simple_reachability F stack reachable_blocks
      else case find_bb F b of
             None \<Rightarrow> Inl MissingTerminator
           | Some x \<Rightarrow>
               (case getTerminator (bb_instrs x) of
                  None \<Rightarrow> Inl MissingTerminator
                | Some t \<Rightarrow>
                    (case visited_successors t of
                       None \<Rightarrow> Inl UnknownTerminator
                     | Some succs \<Rightarrow>
                         compute_simple_reachability F (succs @ stack) (b # reachable_blocks))))"
  by pat_completeness auto

lemma find_bb_mem: "find_bb F b = Some x \<Longrightarrow> bb_id x = b \<and> x \<in> set F"
  by (induction F) (auto split: if_splits)

lemma card_unvisited_less:
  assumes "find_bb F b = Some x" and "b \<notin> set vis"
  shows "card (bb_id ` set F - insert b (set vis)) < card (bb_id ` set F - set vis)"
proof -
  have "b \<in> bb_id ` set F" using find_bb_mem[OF assms(1)] by auto
  then show ?thesis using assms(2) by (intro psubset_card_mono) auto
qed

termination compute_simple_reachability
  apply (relation "measures [\<lambda>(F, st, vis). card (bb_id ` set F - set vis),
                             \<lambda>(F, st, vis). length st]")
    apply simp
   apply simp
  apply (simp add: card_unvisited_less)
  done

subsection \<open>Phis\<close>

text \<open>
  \<^verbatim>\<open>predecessors(&BB)\<close>: one entry for every use of the block as a successor of a
  terminator, so a block that branches twice to \<open>b\<close> is listed twice. LLVM enumerates
  them in use-list order; here they come in the order of the function. The functions
  below take the list as an argument.
\<close>

fun successors :: "instr \<Rightarrow> bb list" where
  "successors (BranchInst b) = [b]"
| "successors (CondBranchInst c t f) = [t, f]"
| "successors (SwitchInst c d cs) = d # map snd cs"
| "successors i = []"

definition block_successors :: "basic_block \<Rightarrow> bb list" where
  "block_successors x = (case getTerminator (bb_instrs x) of None \<Rightarrow> [] | Some t \<Rightarrow> successors t)"

definition predecessors :: "basic_block list \<Rightarrow> bb \<Rightarrow> bb list" where
  "predecessors F b =
     concat (map (\<lambda>x. map (\<lambda>s. bb_id x) (filter (\<lambda>s. s = b) (block_successors x))) F)"

fun find_node :: "cfg_node list \<Rightarrow> bb \<Rightarrow> cfg_node option" where
  "find_node [] n = None"
| "find_node (x # xs) n = (if BB x = n then Some x else find_node xs n)"

text \<open>
  The block an incoming entry is emitted for: \<^verbatim>\<open>incoming.block->phi_override\<close> when it is
  set, \<^verbatim>\<open>&incoming.block->BB\<close> otherwise.
\<close>

definition incoming_bb :: "cfg_node list \<Rightarrow> bb \<Rightarrow> bb" where
  "incoming_bb pool n =
     (case find_node pool n of
        None \<Rightarrow> n
      | Some node \<Rightarrow> (case phi_override node of None \<Rightarrow> n | Some b \<Rightarrow> b))"

fun add_incoming_values ::
  "cfg_node list \<Rightarrow> bb list \<Rightarrow> incoming_value list \<Rightarrow> error + (val \<times> bb) list" where
  "add_incoming_values pool reachable_blocks [] = Inr []"
| "add_incoming_values pool reachable_blocks (i # rest) =
     (if incoming_bb pool (block i) \<in> set reachable_blocks then
        (case add_incoming_values pool reachable_blocks rest of
           Inl e \<Rightarrow> Inl e
         | Inr r \<Rightarrow> Inr ((ivalue i, incoming_bb pool (block i)) # r))
      else Inl PhiIncomingUnreachable)"

text \<open>\<^verbatim>\<open>PHINode::getIncomingValueForBlock\<close>: the value of the first entry for the block.\<close>

fun getIncomingValueForBlock :: "(val \<times> bb) list \<Rightarrow> bb \<Rightarrow> val option" where
  "getIncomingValueForBlock [] b = None"
| "getIncomingValueForBlock ((v, x) # rest) b =
     (if x = b then Some v else getIncomingValueForBlock rest b)"

text \<open>The loop over the predecessors that fills \<^verbatim>\<open>unique_preds\<close> and \<^verbatim>\<open>dup_preds\<close>.\<close>

fun gather_preds ::
  "bb list \<Rightarrow> (val \<times> bb) list \<Rightarrow> bb list \<Rightarrow> (bb \<times> val) list \<Rightarrow> bb list \<Rightarrow>
   error + ((bb \<times> val) list \<times> bb list)" where
  "gather_preds reachable_blocks inc [] unique_preds dup_preds = Inr (unique_preds, dup_preds)"
| "gather_preds reachable_blocks inc (pred # preds) unique_preds dup_preds =
     (if pred \<notin> set reachable_blocks then
        gather_preds reachable_blocks inc preds unique_preds dup_preds
      else if map_of unique_preds pred = None then
        (case getIncomingValueForBlock inc pred of
           None \<Rightarrow> Inl InvalidBasicBlockArgument
         | Some v \<Rightarrow>
             gather_preds reachable_blocks inc preds (unique_preds @ [(pred, v)]) dup_preds)
      else gather_preds reachable_blocks inc preds unique_preds (dup_preds @ [pred]))"

fun add_dup_preds :: "(bb \<times> val) list \<Rightarrow> bb list \<Rightarrow> error + (val \<times> bb) list" where
  "add_dup_preds unique_preds [] = Inr []"
| "add_dup_preds unique_preds (d # ds) =
     (case map_of unique_preds d of
        None \<Rightarrow> Inl OutOfRange
      | Some v \<Rightarrow>
          (case add_dup_preds unique_preds ds of
             Inl e \<Rightarrow> Inl e
           | Inr r \<Rightarrow> Inr ((v, d) # r)))"

text \<open>
  The new incoming list of one phi: the entries of its record, then the entries for the
  duplicate predecessors. \<open>preds\<close> are the predecessors of the block of the node.
\<close>

definition update_incoming ::
  "cfg_node list \<Rightarrow> bb list \<Rightarrow> bb list \<Rightarrow> phi_record \<Rightarrow> error + (val \<times> bb) list" where
  "update_incoming pool reachable_blocks preds piter =
     (if incoming piter = [] then Inl PhiIncomingEmpty
      else case add_incoming_values pool reachable_blocks (incoming piter) of
             Inl e \<Rightarrow> Inl e
           | Inr inc \<Rightarrow>
               if length inc + 1 \<le> length preds then
                 (case gather_preds reachable_blocks inc preds [] [] of
                    Inl e \<Rightarrow> Inl e
                  | Inr (unique_preds, dup_preds) \<Rightarrow>
                      (case add_dup_preds unique_preds dup_preds of
                         Inl e \<Rightarrow> Inl e
                       | Inr extra \<Rightarrow> Inr (inc @ extra)))
               else Inr inc)"

definition update_phi ::
  "cfg_node list \<Rightarrow> bb list \<Rightarrow> bb list \<Rightarrow> phi_record list \<Rightarrow> instr \<Rightarrow> error + instr" where
  "update_phi pool reachable_blocks preds recs i =
     (case i of
        PHINode p old \<Rightarrow>
          (case find (\<lambda>elem. phi elem = p) recs of
             None \<Rightarrow> Inl PhiNotFound
           | Some piter \<Rightarrow>
               (case update_incoming pool reachable_blocks preds piter of
                  Inl e \<Rightarrow> Inl e
                | Inr inc \<Rightarrow> Inr (PHINode p inc)))
      | _ \<Rightarrow> Inr i)"

fun update_phi_instrs ::
  "cfg_node list \<Rightarrow> bb list \<Rightarrow> bb list \<Rightarrow> phi_record list \<Rightarrow> instr list \<Rightarrow> error + instr list" where
  "update_phi_instrs pool reachable_blocks preds recs [] = Inr []"
| "update_phi_instrs pool reachable_blocks preds recs (i # rest) =
     (case update_phi pool reachable_blocks preds recs i of
        Inl e \<Rightarrow> Inl e
      | Inr i' \<Rightarrow>
          (case update_phi_instrs pool reachable_blocks preds recs rest of
             Inl e \<Rightarrow> Inl e
           | Inr rest' \<Rightarrow> Inr (i' # rest')))"

definition update_phis_node ::
  "cfg_node list \<Rightarrow> bb list \<Rightarrow> basic_block list \<Rightarrow> cfg_node \<Rightarrow> error + basic_block list" where
  "update_phis_node pool reachable_blocks F node =
     (case instrs_of F (BB node) of
        None \<Rightarrow> Inl EmptyBlock
      | Some xs \<Rightarrow>
          if xs = [] then Inl EmptyBlock
          else if BB node \<notin> set reachable_blocks then Inr F
          else case update_phi_instrs pool reachable_blocks (predecessors F (BB node))
                      (ir_phi node) xs of
                 Inl e \<Rightarrow> Inl e
               | Inr ys \<Rightarrow> Inr (upd_instrs (BB node) (\<lambda>_. ys) F))"

fun update_phis ::
  "cfg_node list \<Rightarrow> bb list \<Rightarrow> basic_block list \<Rightarrow> cfg_node list \<Rightarrow> error + basic_block list" where
  "update_phis pool reachable_blocks F [] = Inr F"
| "update_phis pool reachable_blocks F (n # ns) =
     (case update_phis_node pool reachable_blocks F n of
        Inl e \<Rightarrow> Inl e
      | Inr F' \<Rightarrow> update_phis pool reachable_blocks F' ns)"

subsection \<open>Removal of the unreachable blocks\<close>



text \<open>Passes 1 and 2: every instruction of an unreachable block of the pool is erased.\<close>

fun erase_unreachable_instrs :: "bb list \<Rightarrow> basic_block list \<Rightarrow> cfg_node list \<Rightarrow> basic_block list" where
  "erase_unreachable_instrs reachable_blocks F [] = F"
| "erase_unreachable_instrs reachable_blocks F (n # ns) =
     (if BB n \<in> set reachable_blocks then erase_unreachable_instrs reachable_blocks F ns
      else erase_unreachable_instrs reachable_blocks (upd_instrs (BB n) (\<lambda>_. []) F) ns)"



subsection \<open>Merge annotations\<close>

definition ends_in_unreachable :: "basic_block list \<Rightarrow> bb \<Rightarrow> bool" where
  "ends_in_unreachable F b = (terminator_of F b = Some UnreachableInst)"

text \<open>
  \<^verbatim>\<open>phi.addIncoming(UndefValue, continue_block)\<close> for the phis of \<^verbatim>\<open>BB.phis()\<close>, the
  phis at the head of the block.
\<close>

fun add_undef_incoming :: "bb \<Rightarrow> instr list \<Rightarrow> instr list" where
  "add_undef_incoming continue_bb (PHINode p inc # rest) =
     PHINode p (inc @ [(UndefValue, continue_bb)]) # add_undef_incoming continue_bb rest"
| "add_undef_incoming continue_bb xs = xs"

text \<open>
  The continue block handed to \<^verbatim>\<open>create_loop_merge\<close> when the record has one: the
  \<^verbatim>\<open>phi_override\<close> of the node when the loop continues at its own header.
\<close>

definition loop_continue_bb :: "cfg_node \<Rightarrow> bb \<Rightarrow> bb" where
  "loop_continue_bb node c =
     (case phi_override node of
        None \<Rightarrow> c
      | Some b \<Rightarrow> if c = BB node then b else c)"

definition selection_exit_merge :: "host \<Rightarrow> cfg_node \<Rightarrow> instr \<Rightarrow> error + host" where
  "selection_exit_merge h node term =
     (if ttype (ir_terminator node) = Condition then
        (case term of
           CondBranchInst c s0 s1 \<Rightarrow>
             (let unreach_0 = ends_in_unreachable (fn_blocks h) s0;
                  unreach_1 = ends_in_unreachable (fn_blocks h) s1
              in if unreach_0 \<and> \<not> unreach_1 then create_selection_merge h (BB node) s1
                 else if \<not> unreach_0 \<and> unreach_1 then create_selection_merge h (BB node) s0
                 else Inr h)
         | _ \<Rightarrow> Inl ConditionAssert)
      else if ttype (ir_terminator node) = Switch then Inl ExitMergeOnSwitch
      else Inl InvalidTerminator)"

definition selection_merge_annotation :: "host \<Rightarrow> cfg_node \<Rightarrow> instr \<Rightarrow> error + host" where
  "selection_merge_annotation h node term =
     (if selection_merge_block node = None \<and> selection_merge_exit node
      then selection_exit_merge h node term
      else if ttype (ir_terminator node) = Condition \<or> ttype (ir_terminator node) = Switch then
        (if ttype (ir_terminator node) = Condition \<and> (case term of CondBranchInst c s0 s1 \<Rightarrow> False | _ \<Rightarrow> True)
         then Inl ConditionAssert
         else if ttype (ir_terminator node) = Switch \<and> (case term of SwitchInst c d cs \<Rightarrow> False | _ \<Rightarrow> True)
         then Inl InvalidTerminator
         else case selection_merge_block node of
                Some m \<Rightarrow> create_selection_merge h (BB node) m
              | None \<Rightarrow>
                  if ttype (ir_terminator node) \<noteq> Condition then Inl ConditionAssert
                  else
                    (let (fake_merge, F1) =
                           BasicBlock_Create (name node @ ''.fake_merge'') (Some (BB node)) (fn_blocks h)
                     in create_selection_merge
                          (h\<lparr>fn_blocks := insert_at_end fake_merge UnreachableInst F1\<rparr>)
                          (BB node) fake_merge))
      else Inl InvalidSelectionMerge)"

definition loop_merge_annotation :: "bb \<Rightarrow> host \<Rightarrow> cfg_node \<Rightarrow> error + host" where
  "loop_merge_annotation entry h node =
     (case merge_block (ir_merge_info node) of
        Some m \<Rightarrow>
          (case continue_block (ir_merge_info node) of
             Some c \<Rightarrow> create_loop_merge h (BB node) m (loop_continue_bb node c)
           | None \<Rightarrow>
               (let F1 = (if BB node = entry then
                            (let (new_entry_block, F') =
                                   BasicBlock_Create (name node @ ''.new_entry.fake_continue'')
                                     (Some (BB node)) (fn_blocks h)
                             in insert_at_end new_entry_block (BranchInst (BB node)) F')
                          else fn_blocks h);
                    (continue_bb, F2) =
                      BasicBlock_Create (name node @ ''.fake_continue'') (Some (BB node)) F1;
                    F3 = insert_at_end continue_bb (BranchInst (BB node)) F2
                in case create_loop_merge (h\<lparr>fn_blocks := F3\<rparr>) (BB node) m continue_bb of
                     Inl e \<Rightarrow> Inl e
                   | Inr h' \<Rightarrow>
                       Inr (h'\<lparr>fn_blocks :=
                                 upd_instrs (BB node) (add_undef_incoming continue_bb) (fn_blocks h')\<rparr>)))
      | None \<Rightarrow>
          (case continue_block (ir_merge_info node) of
             Some c \<Rightarrow>
               (let (merge_bb, F1) =
                      BasicBlock_Create (name node @ ''.fake_merge'')
                        (getNextNode (fn_blocks h) (BB node)) (fn_blocks h)
                in create_loop_merge (h\<lparr>fn_blocks := insert_at_end merge_bb UnreachableInst F1\<rparr>)
                     (BB node) merge_bb (loop_continue_bb node c))
           | None \<Rightarrow> Inl InvalidLoopMerge))"

definition add_merge_annotation :: "bb \<Rightarrow> host \<Rightarrow> cfg_node \<Rightarrow> error + host" where
  "add_merge_annotation entry h node =
     (if merge node = MergeNone then Inr h
      else case terminator_of (fn_blocks h) (BB node) of
             None \<Rightarrow> Inl MissingTerminator
           | Some term \<Rightarrow>
               if merge node = Selection then selection_merge_annotation h node term
               else loop_merge_annotation entry h node)"


subsection \<open>The emission\<close>




section \<open>Notions used in the statements\<close>

text \<open>
  \<open>with_markers ms xs\<close> are the instructions \<open>xs\<close> of a block with the calls \<open>ms\<close>
  placed, in this order, directly in front of its last instruction. \<open>loop_markers\<close> and
  \<open>selection_markers\<close> are the calls that one loop or selection annotation places in
  the block \<open>b\<close>.
\<close>

definition with_markers :: "instr list \<Rightarrow> instr list \<Rightarrow> instr list" where
  "with_markers ms xs = (if ms = [] then xs else butlast xs @ ms @ [last xs])"

definition loop_markers :: "bb \<Rightarrow> bb \<Rightarrow> bb \<Rightarrow> bb \<Rightarrow> instr list" where
  "loop_markers header m c b =
     (if b = header then [CallInst (Some ''floor.loop_merge'') [m, c]] else []) @
     (if b = m then [CallInst (Some ''floor.merge_block'') []] else []) @
     (if b = c then [CallInst (Some ''floor.continue_block'') []] else [])"

definition selection_markers :: "bb \<Rightarrow> bb \<Rightarrow> bb \<Rightarrow> instr list" where
  "selection_markers header m b =
     (if b = header then [CallInst (Some ''floor.selection_merge'') [m]] else []) @
     (if b = m then [CallInst (Some ''floor.merge_block'') []] else [])"

definition annotate_blocks :: "(bb \<Rightarrow> instr list) \<Rightarrow> basic_block list \<Rightarrow> basic_block list" where
  "annotate_blocks ms F = map (\<lambda>x. x\<lparr>bb_instrs := with_markers (ms (bb_id x)) (bb_instrs x)\<rparr>) F"

text \<open>A header with a body and a merge block, each with one ordinary instruction.\<close>

definition ex_host :: host where
  "ex_host = \<lparr>fn_blocks =
      [\<lparr>bb_id = 0, bb_name = ''header'', bb_instrs = [OtherInst 0, CondBranchInst (Value 0) 1 2]\<rparr>,
       \<lparr>bb_id = 1, bb_name = ''body'', bb_instrs = [OtherInst 1, BranchInst 0]\<rparr>,
       \<lparr>bb_id = 2, bb_name = ''merge'', bb_instrs = [OtherInst 2, ReturnInst None]\<rparr>],
     module_functions = []\<rparr>"

text \<open>Records with nothing set, to build the nodes of the examples from.\<close>

definition plain_terminator :: terminator where
  "plain_terminator =
     \<lparr>ttype = Unreachable, condition = None, true_block = None, false_block = None,
      direct_block = None, return_value = None, cases = []\<rparr>"

definition plain_node :: "string \<Rightarrow> bb \<Rightarrow> cfg_node" where
  "plain_node n b =
     \<lparr>name = n, BB = b, ir_operations = [], ir_phi = [], ir_terminator = plain_terminator,
      ir_merge_info = \<lparr>merge_block = None, continue_block = None\<rparr>, merge = MergeNone,
      selection_merge_block = None, selection_merge_exit = False, phi_override = None\<rparr>"

text \<open>A conditional branch to a block that ends in unreachable and a block that returns.\<close>

definition exit_host :: host where
  "exit_host = \<lparr>fn_blocks =
      [\<lparr>bb_id = 0, bb_name = ''sel'', bb_instrs = [CondBranchInst (Value 0) 1 2]\<rparr>,
       \<lparr>bb_id = 1, bb_name = ''trap'', bb_instrs = [UnreachableInst]\<rparr>,
       \<lparr>bb_id = 2, bb_name = ''ret'', bb_instrs = [ReturnInst None]\<rparr>],
     module_functions = []\<rparr>"

definition exit_node :: cfg_node where
  "exit_node = (plain_node ''sel'' 0)
     \<lparr>ir_terminator := plain_terminator
        \<lparr>ttype := Condition, condition := Some (Value 0), true_block := Some 1, false_block := Some 2\<rparr>,
      merge := Selection, selection_merge_exit := True\<rparr>"




text \<open>
  A loop whose header \<open>hdr\<close> branches to two blocks of the loop body, so that the
  header needs a fake selection; \<open>a\<close> has a phi with an entry for the header, and
  \<open>dead\<close> is not reachable from the entry. The nodes are what \<^verbatim>\<open>translate_bb\<close> records
  for the blocks, with the loop annotation on the header.
\<close>

definition loop_host :: host where
  "loop_host = \<lparr>fn_blocks =
      [\<lparr>bb_id = 0, bb_name = ''entry'', bb_instrs = [BranchInst 1]\<rparr>,
       \<lparr>bb_id = 1, bb_name = ''hdr'',
        bb_instrs = [PHINode 7 [(Value 1, 0), (Value 2, 4)], CondBranchInst (Value 0) 2 3]\<rparr>,
       \<lparr>bb_id = 2, bb_name = ''a'', bb_instrs = [PHINode 9 [(Value 3, 1)], BranchInst 4]\<rparr>,
       \<lparr>bb_id = 3, bb_name = ''b'', bb_instrs = [CondBranchInst (Value 5) 4 5]\<rparr>,
       \<lparr>bb_id = 4, bb_name = ''cont'', bb_instrs = [BranchInst 1]\<rparr>,
       \<lparr>bb_id = 5, bb_name = ''exit'', bb_instrs = [OtherInst 9, ReturnInst None]\<rparr>,
       \<lparr>bb_id = 6, bb_name = ''dead'', bb_instrs = [BranchInst 5]\<rparr>],
     module_functions = []\<rparr>"

definition branch_node :: "string \<Rightarrow> bb \<Rightarrow> bb \<Rightarrow> cfg_node" where
  "branch_node n b d =
     (plain_node n b)\<lparr>ir_terminator := plain_terminator\<lparr>ttype := Branch, direct_block := Some d\<rparr>\<rparr>"

definition condition_node :: "string \<Rightarrow> bb \<Rightarrow> val \<Rightarrow> bb \<Rightarrow> bb \<Rightarrow> cfg_node" where
  "condition_node n b c t f =
     (plain_node n b)\<lparr>ir_terminator := plain_terminator
        \<lparr>ttype := Condition, condition := Some c, true_block := Some t, false_block := Some f\<rparr>\<rparr>"

definition loop_hdr :: cfg_node where
  "loop_hdr = (condition_node ''hdr'' 1 (Value 0) 2 3)
     \<lparr>ir_phi := [\<lparr>phi = 7, incoming = [\<lparr>block = 0, ivalue = Value 1\<rparr>,
                                         \<lparr>block = 4, ivalue = Value 2\<rparr>]\<rparr>],
      ir_merge_info := \<lparr>merge_block = Some 5, continue_block = Some 4\<rparr>,
      merge := Loop\<rparr>"

definition loop_pool :: "cfg_node list" where
  "loop_pool =
     [branch_node ''entry'' 0 1,
      loop_hdr,
      (branch_node ''a'' 2 4)\<lparr>ir_phi := [\<lparr>phi = 9, incoming = [\<lparr>block = 1, ivalue = Value 3\<rparr>]\<rparr>]\<rparr>,
      condition_node ''b'' 3 (Value 5) 4 5,
      branch_node ''cont'' 4 1,
      (plain_node ''exit'' 5)\<lparr>ir_operations := [OtherInst 9],
                               ir_terminator := plain_terminator\<lparr>ttype := Return\<rparr>\<rparr>,
      branch_node ''dead'' 6 5]"

text \<open>The loop example after the terminator update, and after the emission without merge annotations.\<close>

definition loop_host_terminators :: host where
  "loop_host_terminators = \<lparr>fn_blocks =
      [\<lparr>bb_id = 0, bb_name = ''entry'', bb_instrs = [BranchInst 1]\<rparr>,
       \<lparr>bb_id = 1, bb_name = ''hdr'',
        bb_instrs = [PHINode 7 [(Value 1, 0), (Value 2, 4)], BranchInst 7]\<rparr>,
       \<lparr>bb_id = 8, bb_name = ''hdr.unreachable'',
        bb_instrs = [CallInst (Some ''floor.merge_block'') [], UnreachableInst]\<rparr>,
       \<lparr>bb_id = 7, bb_name = ''hdr.fake_selection'',
        bb_instrs = [CallInst (Some ''floor.selection_merge'') [8], CondBranchInst (Value 0) 2 3]\<rparr>,
       \<lparr>bb_id = 2, bb_name = ''a'', bb_instrs = [PHINode 9 [(Value 3, 1)], BranchInst 4]\<rparr>,
       \<lparr>bb_id = 3, bb_name = ''b'', bb_instrs = [CondBranchInst (Value 5) 4 5]\<rparr>,
       \<lparr>bb_id = 4, bb_name = ''cont'', bb_instrs = [BranchInst 1]\<rparr>,
       \<lparr>bb_id = 5, bb_name = ''exit'', bb_instrs = [OtherInst 9, ReturnInst None]\<rparr>,
       \<lparr>bb_id = 6, bb_name = ''dead'', bb_instrs = [BranchInst 5]\<rparr>],
     module_functions = [''floor.selection_merge'', ''floor.merge_block'']\<rparr>"

definition loop_pool_terminators :: "cfg_node list" where
  "loop_pool_terminators =
     [branch_node ''entry'' 0 1,
      loop_hdr\<lparr>phi_override := Some 7\<rparr>,
      (branch_node ''a'' 2 4)\<lparr>ir_phi := [\<lparr>phi = 9, incoming = [\<lparr>block = 1, ivalue = Value 3\<rparr>]\<rparr>]\<rparr>,
      condition_node ''b'' 3 (Value 5) 4 5,
      branch_node ''cont'' 4 1,
      (plain_node ''exit'' 5)\<lparr>ir_operations := [OtherInst 9],
                               ir_terminator := plain_terminator\<lparr>ttype := Return\<rparr>\<rparr>,
      branch_node ''dead'' 6 5]"

definition loop_blocks_phis :: "basic_block list" where
  "loop_blocks_phis =
      [\<lparr>bb_id = 0, bb_name = ''entry'', bb_instrs = [BranchInst 1]\<rparr>,
       \<lparr>bb_id = 1, bb_name = ''hdr'',
        bb_instrs = [PHINode 7 [(Value 1, 0), (Value 2, 4)], BranchInst 7]\<rparr>,
       \<lparr>bb_id = 8, bb_name = ''hdr.unreachable'',
        bb_instrs = [CallInst (Some ''floor.merge_block'') [], UnreachableInst]\<rparr>,
       \<lparr>bb_id = 7, bb_name = ''hdr.fake_selection'',
        bb_instrs = [CallInst (Some ''floor.selection_merge'') [8], CondBranchInst (Value 0) 2 3]\<rparr>,
       \<lparr>bb_id = 2, bb_name = ''a'', bb_instrs = [PHINode 9 [(Value 3, 7)], BranchInst 4]\<rparr>,
       \<lparr>bb_id = 3, bb_name = ''b'', bb_instrs = [CondBranchInst (Value 5) 4 5]\<rparr>,
       \<lparr>bb_id = 4, bb_name = ''cont'', bb_instrs = [BranchInst 1]\<rparr>,
       \<lparr>bb_id = 5, bb_name = ''exit'', bb_instrs = [OtherInst 9, ReturnInst None]\<rparr>,
       \<lparr>bb_id = 6, bb_name = ''dead'', bb_instrs = [BranchInst 5]\<rparr>]"

definition loop_host_emitted :: host where
  "loop_host_emitted = \<lparr>fn_blocks =
      [\<lparr>bb_id = 0, bb_name = ''entry'', bb_instrs = [BranchInst 1]\<rparr>,
       \<lparr>bb_id = 1, bb_name = ''hdr'',
        bb_instrs = [PHINode 7 [(Value 1, 0), (Value 2, 4)], BranchInst 7]\<rparr>,
       \<lparr>bb_id = 8, bb_name = ''hdr.unreachable'',
        bb_instrs = [CallInst (Some ''floor.merge_block'') [], UnreachableInst]\<rparr>,
       \<lparr>bb_id = 7, bb_name = ''hdr.fake_selection'',
        bb_instrs = [CallInst (Some ''floor.selection_merge'') [8], CondBranchInst (Value 0) 2 3]\<rparr>,
       \<lparr>bb_id = 2, bb_name = ''a'', bb_instrs = [PHINode 9 [(Value 3, 7)], BranchInst 4]\<rparr>,
       \<lparr>bb_id = 3, bb_name = ''b'', bb_instrs = [CondBranchInst (Value 5) 4 5]\<rparr>,
       \<lparr>bb_id = 4, bb_name = ''cont'', bb_instrs = [BranchInst 1]\<rparr>,
       \<lparr>bb_id = 5, bb_name = ''exit'', bb_instrs = [OtherInst 9, ReturnInst None]\<rparr>],
     module_functions = [''floor.selection_merge'', ''floor.merge_block'']\<rparr>"

definition loop_pool_emitted :: "cfg_node list" where
  "loop_pool_emitted =
     [branch_node ''entry'' 0 1,
      loop_hdr\<lparr>phi_override := Some 7\<rparr>,
      (branch_node ''a'' 2 4)\<lparr>ir_phi := [\<lparr>phi = 9, incoming = [\<lparr>block = 1, ivalue = Value 3\<rparr>]\<rparr>]\<rparr>,
      condition_node ''b'' 3 (Value 5) 4 5,
      branch_node ''cont'' 4 1,
      (plain_node ''exit'' 5)\<lparr>ir_operations := [OtherInst 9],
                               ir_terminator := plain_terminator\<lparr>ttype := Return\<rparr>\<rparr>]"

text \<open>
  A loop that only branches to itself, with a block behind it; and the three kinds of
  loop annotation on its header: no merge block, no continue block, neither.
\<close>

definition self_loop_host :: host where
  "self_loop_host = \<lparr>fn_blocks =
      [\<lparr>bb_id = 0, bb_name = ''h'', bb_instrs = [PHINode 3 [(Value 1, 0)], BranchInst 0]\<rparr>,
       \<lparr>bb_id = 1, bb_name = ''m'', bb_instrs = [ReturnInst None]\<rparr>],
     module_functions = []\<rparr>"

definition self_loop_node :: "bb option \<Rightarrow> bb option \<Rightarrow> cfg_node" where
  "self_loop_node m c =
     (branch_node ''h'' 0 0)
       \<lparr>ir_phi := [\<lparr>phi = 3, incoming = [\<lparr>block = 0, ivalue = Value 1\<rparr>]\<rparr>],
        ir_merge_info := \<lparr>merge_block = m, continue_block = c\<rparr>,
        merge := Loop\<rparr>"

definition self_loop_fake_merge :: host where
  "self_loop_fake_merge = \<lparr>fn_blocks =
      [\<lparr>bb_id = 0, bb_name = ''h'',
        bb_instrs = [PHINode 3 [(Value 1, 0)], CallInst (Some ''floor.loop_merge'') [2, 0],
                     CallInst (Some ''floor.continue_block'') [], BranchInst 0]\<rparr>,
       \<lparr>bb_id = 2, bb_name = ''h.fake_merge'',
        bb_instrs = [CallInst (Some ''floor.merge_block'') [], UnreachableInst]\<rparr>,
       \<lparr>bb_id = 1, bb_name = ''m'', bb_instrs = [ReturnInst None]\<rparr>],
     module_functions = [''floor.loop_merge'', ''floor.merge_block'', ''floor.continue_block'']\<rparr>"

definition self_loop_fake_continue :: host where
  "self_loop_fake_continue = \<lparr>fn_blocks =
      [\<lparr>bb_id = 2, bb_name = ''h.new_entry.fake_continue'', bb_instrs = [BranchInst 0]\<rparr>,
       \<lparr>bb_id = 3, bb_name = ''h.fake_continue'',
        bb_instrs = [CallInst (Some ''floor.continue_block'') [], BranchInst 0]\<rparr>,
       \<lparr>bb_id = 0, bb_name = ''h'',
        bb_instrs = [PHINode 3 [(Value 1, 0), (UndefValue, 3)],
                     CallInst (Some ''floor.loop_merge'') [1, 3], BranchInst 0]\<rparr>,
       \<lparr>bb_id = 1, bb_name = ''m'',
        bb_instrs = [CallInst (Some ''floor.merge_block'') [], ReturnInst None]\<rparr>],
     module_functions = [''floor.loop_merge'', ''floor.merge_block'', ''floor.continue_block'']\<rparr>"

text \<open>
  What the phi update makes of one instruction of a reachable block: a phi \<open>p\<close> becomes
  the phi with the incoming entries of its record, each for the block \<open>incoming_bb\<close>
  gives, followed by the entries for duplicate predecessors, all of them for reachable
  blocks; any other instruction stays. \<open>emitted_incoming\<close> are the entries of the record
  alone.
\<close>

text \<open>The rewritten phi.\<close>

definition phi_rewritten :: "cfg_node list \<Rightarrow> bb list \<Rightarrow> phi_record list \<Rightarrow> instr \<Rightarrow> instr \<Rightarrow> bool" where
  "phi_rewritten pool R recs x y =
     (case x of
        PHINode p old \<Rightarrow>
          (\<exists>piter extra. find (\<lambda>elem. phi elem = p) recs = Some piter \<and>
             y = PHINode p (map (\<lambda>i. (ivalue i, incoming_bb pool (block i))) (incoming piter) @ extra) \<and>
             snd ` set (map (\<lambda>i. (ivalue i, incoming_bb pool (block i))) (incoming piter) @ extra) \<subseteq> set R)
      | _ \<Rightarrow> y = x)"

text \<open>The incoming entries that the record of a phi is emitted as.\<close>

definition emitted_incoming :: "cfg_node list \<Rightarrow> phi_record \<Rightarrow> (val \<times> bb) list" where
  "emitted_incoming pool piter = map (\<lambda>i. (ivalue i, incoming_bb pool (block i))) (incoming piter)"

text \<open>The instructions of a block in front of its terminator.\<close>

definition without_terminator :: "instr list \<Rightarrow> instr list" where
  "without_terminator xs = (if getTerminator xs = None then xs else butlast xs)"

text \<open>One more incoming entry, an undef value for the block \<open>continue_bb\<close>, on a phi.\<close>

fun add_undef :: "bb \<Rightarrow> instr \<Rightarrow> instr" where
  "add_undef continue_bb (PHINode p inc) = PHINode p (inc @ [(UndefValue, continue_bb)])"
| "add_undef continue_bb i = i"


text \<open>
  A function whose entry is a switch with one case, and the node that \<^verbatim>\<open>translate_bb\<close>
  records for it: the default destination is the first entry of \<open>cases\<close>, with no value.
\<close>

definition switch_host :: host where
  "switch_host = \<lparr>fn_blocks =
      [\<lparr>bb_id = 0, bb_name = ''sw'', bb_instrs = [SwitchInst (Value 0) 1 [(Value 7, 2)]]\<rparr>,
       \<lparr>bb_id = 1, bb_name = ''default'', bb_instrs = [ReturnInst None]\<rparr>,
       \<lparr>bb_id = 2, bb_name = ''case7'', bb_instrs = [ReturnInst None]\<rparr>],
     module_functions = []\<rparr>"

text \<open>The node of the switch block.\<close>

definition switch_node :: cfg_node where
  "switch_node = (plain_node ''sw'' 0)
     \<lparr>ir_terminator := plain_terminator
        \<lparr>ttype := Switch, condition := Some (Value 0),
         cases := [\<lparr>case_node = 1, case_value = None, is_default = True\<rparr>,
                   \<lparr>case_node = 2, case_value = Some (Value 7), is_default = False\<rparr>]\<rparr>\<rparr>"

section \<open>Theorems\<close>

subsection \<open>Terminator classification\<close>

text \<open>
  Claim C8. Classifying a terminator that is none of conditional branch, branch, return,
  unreachable and switch is fatal: \<^verbatim>\<open>get_terminator_type\<close> aborts, whatever precedes the
  instruction, and it aborts with this error on no supported terminator. On the supported
  variants with no indirect call in front it returns one of the six types, and an
  unreachable instruction is \<open>Kill\<close> exactly when a call of
  \<^verbatim>\<open>floor.discard_fragment\<close> precedes it.
\<close>

theorem get_terminator_type_unsupported_fatal:
  "(get_terminator_type prev i = Inl UnsupportedTerminator) = (\<not> supported_terminator i)"
  by (cases "(prev, i)" rule: get_terminator_type.cases) (auto simp: supported_terminator_def)

theorem get_terminator_type_unsupported_fatal_witness:
  "\<not> supported_terminator (OtherTerminator 0) \<and>
   get_terminator_type (Some (OtherInst 1)) (OtherTerminator 0) = Inl UnsupportedTerminator"
  using get_terminator_type_unsupported_fatal [of "Some (OtherInst 1)" "OtherTerminator 0"]
  by (simp add: supported_terminator_def)

subsection \<open>Blocks and their instructions\<close>

lemma find_bb_upd_instrs:
  "find_bb (upd_instrs b f F) x =
     map_option (\<lambda>y. if bb_id y = b then y\<lparr>bb_instrs := f (bb_instrs y)\<rparr> else y) (find_bb F x)"
  by (induction F) (auto simp: upd_instrs_def)

lemma instrs_of_upd_instrs:
  "instrs_of (upd_instrs b f F) x = (if x = b then map_option f (instrs_of F x) else instrs_of F x)"
proof (cases "find_bb F x")
  case None
  then show ?thesis by (auto simp: instrs_of_def find_bb_upd_instrs)
next
  case (Some y)
  then have "bb_id y = x" by (simp add: find_bb_mem)
  with Some show ?thesis by (auto simp: instrs_of_def find_bb_upd_instrs)
qed

lemma getTerminator_insert_before:
  "getTerminator xs = Some t \<Longrightarrow> getTerminator (butlast xs @ [i, last xs]) = Some t"
  by (auto simp: getTerminator_def split: if_splits)

lemma terminator_of_insert_before_terminator:
  "terminator_of F x = Some t \<Longrightarrow> terminator_of (insert_before_terminator b i F) x = Some t"
  by (auto simp: terminator_of_def insert_before_terminator_def instrs_of_upd_instrs
        getTerminator_insert_before split: option.splits)

lemma insert_before_terminator_annotate:
  "insert_before_terminator b i F = annotate_blocks (\<lambda>x. if x = b then [i] else []) F"
  by (simp add: insert_before_terminator_def upd_instrs_def with_markers_def annotate_blocks_def)

lemma with_markers_twice:
  "with_markers ms (with_markers ns xs) = with_markers (ns @ ms) xs"
  by (simp add: with_markers_def butlast_append)

lemma annotate_blocks_twice:
  "annotate_blocks f (annotate_blocks g F) = annotate_blocks (\<lambda>b. g b @ f b) F"
  by (simp add: annotate_blocks_def with_markers_twice o_def)

lemma create_loop_merge_blocks:
  assumes "terminator_of (fn_blocks h) header = Some t"
    and "terminator_of (fn_blocks h) m = Some tm"
    and "terminator_of (fn_blocks h) c = Some tc"
  shows "\<exists>fs. create_loop_merge h header m c =
           Inr \<lparr>fn_blocks = annotate_blocks (loop_markers header m c) (fn_blocks h),
                module_functions = fs\<rparr>"
proof -
  let ?F1 = "insert_before_terminator header (CallInst (Some ''floor.loop_merge'') [m, c]) (fn_blocks h)"
  let ?F2 = "insert_before_terminator m (CallInst (Some ''floor.merge_block'') []) ?F1"
  let ?F3 = "insert_before_terminator c (CallInst (Some ''floor.continue_block'') []) ?F2"
  have t1: "terminator_of ?F1 m = Some tm"
    using assms(2) by (rule terminator_of_insert_before_terminator)
  have t2: "terminator_of ?F2 c = Some tc"
    using assms(3) by (intro terminator_of_insert_before_terminator)
  have "\<exists>fs. create_loop_merge h header m c = Inr \<lparr>fn_blocks = ?F3, module_functions = fs\<rparr>"
    using assms(1) t1 t2
    by (simp add: create_loop_merge_def insert_merge_block_marker_def
          insert_continue_block_marker_def Let_def)
  moreover have "?F3 = annotate_blocks (loop_markers header m c) (fn_blocks h)"
    by (simp add: insert_before_terminator_annotate annotate_blocks_twice loop_markers_def [abs_def])
  ultimately show ?thesis by simp
qed

lemma create_selection_merge_blocks:
  assumes "terminator_of (fn_blocks h) header = Some t"
    and "terminator_of (fn_blocks h) m = Some tm"
  shows "\<exists>fs. create_selection_merge h header m =
           Inr \<lparr>fn_blocks = annotate_blocks (selection_markers header m) (fn_blocks h),
                module_functions = fs\<rparr>"
proof -
  let ?F1 = "insert_before_terminator header (CallInst (Some ''floor.selection_merge'') [m]) (fn_blocks h)"
  let ?F2 = "insert_before_terminator m (CallInst (Some ''floor.merge_block'') []) ?F1"
  have t1: "terminator_of ?F1 m = Some tm"
    using assms(2) by (rule terminator_of_insert_before_terminator)
  have "\<exists>fs. create_selection_merge h header m = Inr \<lparr>fn_blocks = ?F2, module_functions = fs\<rparr>"
    using assms(1) t1
    by (simp add: create_selection_merge_def insert_merge_block_marker_def Let_def)
  moreover have "?F2 = annotate_blocks (selection_markers header m) (fn_blocks h)"
    by (simp add: insert_before_terminator_annotate annotate_blocks_twice selection_markers_def [abs_def])
  ultimately show ?thesis by simp
qed

lemma instrs_of_annotate_blocks:
  "instrs_of (annotate_blocks ms F) b = map_option (with_markers (ms b)) (instrs_of F b)"
proof (cases "find_bb F b")
  case None
  then have "find_bb (annotate_blocks ms F) b = None"
    by (induction F) (auto simp: annotate_blocks_def split: if_splits)
  with None show ?thesis by (simp add: instrs_of_def)
next
  case (Some y)
  then have "find_bb (annotate_blocks ms F) b = Some (y\<lparr>bb_instrs := with_markers (ms b) (bb_instrs y)\<rparr>)"
    by (induction F) (auto simp: annotate_blocks_def split: if_splits)
  with Some show ?thesis by (simp add: instrs_of_def)
qed

subsection \<open>Merge markers\<close>

text \<open>
  Claim C1, as amended. When the header, the merge block and the continue block end in a
  terminator, \<^verbatim>\<open>create_loop_merge\<close> and \<^verbatim>\<open>create_selection_merge\<close> succeed and change
  nothing but this: the \<^verbatim>\<open>loop_merge\<close> or \<^verbatim>\<open>selection_merge\<close> call is placed directly in
  front of the terminator of the header, the \<^verbatim>\<open>merge_block\<close> marker directly in front of
  the terminator of the merge block, and the \<^verbatim>\<open>continue_block\<close> marker directly in front
  of the terminator of the continue block (in this order when blocks coincide). The
  markers are the last instructions before the terminator, not the first of the block.
\<close>

theorem merge_markers_before_terminators:
  assumes "terminator_of (fn_blocks h) header = Some t"
    and "terminator_of (fn_blocks h) m = Some tm"
    and "terminator_of (fn_blocks h) c = Some tc"
  shows "(\<exists>h'. create_loop_merge h header m c = Inr h' \<and>
            fn_blocks h' = annotate_blocks (loop_markers header m c) (fn_blocks h) \<and>
            (\<forall>b xs. instrs_of (fn_blocks h) b = Some xs \<longrightarrow>
               instrs_of (fn_blocks h') b =
                 Some (if b \<in> {header, m, c}
                       then butlast xs @ loop_markers header m c b @ [last xs] else xs))) \<and>
         (\<exists>h'. create_selection_merge h header m = Inr h' \<and>
            fn_blocks h' = annotate_blocks (selection_markers header m) (fn_blocks h) \<and>
            (\<forall>b xs. instrs_of (fn_blocks h) b = Some xs \<longrightarrow>
               instrs_of (fn_blocks h') b =
                 Some (if b \<in> {header, m}
                       then butlast xs @ selection_markers header m b @ [last xs] else xs)))"
proof (intro conjI)
  obtain fs where l: "create_loop_merge h header m c =
      Inr \<lparr>fn_blocks = annotate_blocks (loop_markers header m c) (fn_blocks h), module_functions = fs\<rparr>"
    using create_loop_merge_blocks[OF assms] by blast
  show "\<exists>h'. create_loop_merge h header m c = Inr h' \<and>
            fn_blocks h' = annotate_blocks (loop_markers header m c) (fn_blocks h) \<and>
            (\<forall>b xs. instrs_of (fn_blocks h) b = Some xs \<longrightarrow>
               instrs_of (fn_blocks h') b =
                 Some (if b \<in> {header, m, c}
                       then butlast xs @ loop_markers header m c b @ [last xs] else xs))"
    unfolding l
    by (auto simp: instrs_of_annotate_blocks with_markers_def loop_markers_def)
next
  obtain fs where l: "create_selection_merge h header m =
      Inr \<lparr>fn_blocks = annotate_blocks (selection_markers header m) (fn_blocks h), module_functions = fs\<rparr>"
    using create_selection_merge_blocks[OF assms(1,2)] by blast
  show "\<exists>h'. create_selection_merge h header m = Inr h' \<and>
            fn_blocks h' = annotate_blocks (selection_markers header m) (fn_blocks h) \<and>
            (\<forall>b xs. instrs_of (fn_blocks h) b = Some xs \<longrightarrow>
               instrs_of (fn_blocks h') b =
                 Some (if b \<in> {header, m}
                       then butlast xs @ selection_markers header m b @ [last xs] else xs))"
    unfolding l
    by (auto simp: instrs_of_annotate_blocks with_markers_def selection_markers_def)
qed

text \<open>
  The merge block of \<open>ex_host\<close> starts with an ordinary instruction; after the
  annotation its first instruction is still that one, and the marker is second.
\<close>

theorem merge_block_marker_not_first_counterexample:
  "create_selection_merge ex_host 0 2 =
     Inr \<lparr>fn_blocks =
      [\<lparr>bb_id = 0, bb_name = ''header'',
        bb_instrs = [OtherInst 0, CallInst (Some ''floor.selection_merge'') [2], CondBranchInst (Value 0) 1 2]\<rparr>,
       \<lparr>bb_id = 1, bb_name = ''body'', bb_instrs = [OtherInst 1, BranchInst 0]\<rparr>,
       \<lparr>bb_id = 2, bb_name = ''merge'',
        bb_instrs = [OtherInst 2, CallInst (Some ''floor.merge_block'') [], ReturnInst None]\<rparr>],
     module_functions = [''floor.selection_merge'', ''floor.merge_block'']\<rparr> \<and>
   hd [OtherInst 2, CallInst (Some ''floor.merge_block'') [], ReturnInst None]
     \<noteq> CallInst (Some ''floor.merge_block'') []"
  by (simp add: ex_host_def create_selection_merge_def insert_merge_block_marker_def
        terminator_of_def instrs_of_def getTerminator_def insert_before_terminator_def
        upd_instrs_def getOrInsertFunction_def)

theorem merge_markers_before_terminators_witness:
  "terminator_of (fn_blocks ex_host) 0 = Some (CondBranchInst (Value 0) 1 2) \<and>
   terminator_of (fn_blocks ex_host) 2 = Some (ReturnInst None) \<and>
   terminator_of (fn_blocks ex_host) 1 = Some (BranchInst 0) \<and>
   (\<exists>h'. create_loop_merge ex_host 0 2 1 = Inr h' \<and>
      instrs_of (fn_blocks h') 0 =
        Some [OtherInst 0, CallInst (Some ''floor.loop_merge'') [2, 1], CondBranchInst (Value 0) 1 2] \<and>
      instrs_of (fn_blocks h') 1 =
        Some [OtherInst 1, CallInst (Some ''floor.continue_block'') [], BranchInst 0] \<and>
      instrs_of (fn_blocks h') 2 =
        Some [OtherInst 2, CallInst (Some ''floor.merge_block'') [], ReturnInst None])"
proof -
  have t0: "terminator_of (fn_blocks ex_host) 0 = Some (CondBranchInst (Value 0) 1 2)"
    by (simp add: ex_host_def terminator_of_def instrs_of_def getTerminator_def)
  have t2: "terminator_of (fn_blocks ex_host) 2 = Some (ReturnInst None)"
    by (simp add: ex_host_def terminator_of_def instrs_of_def getTerminator_def)
  have t1: "terminator_of (fn_blocks ex_host) 1 = Some (BranchInst 0)"
    by (simp add: ex_host_def terminator_of_def instrs_of_def getTerminator_def)
  have i: "instrs_of (fn_blocks ex_host) 0 = Some [OtherInst 0, CondBranchInst (Value 0) 1 2]"
      "instrs_of (fn_blocks ex_host) 1 = Some [OtherInst 1, BranchInst 0]"
      "instrs_of (fn_blocks ex_host) 2 = Some [OtherInst 2, ReturnInst None]"
    by (simp_all add: ex_host_def instrs_of_def)
  from merge_markers_before_terminators[OF t0 t2 t1]
  obtain h' where h': "create_loop_merge ex_host 0 2 1 = Inr h'"
    and a: "\<forall>b xs. instrs_of (fn_blocks ex_host) b = Some xs \<longrightarrow>
               instrs_of (fn_blocks h') b =
                 Some (if b \<in> {0, 2, 1}
                       then butlast xs @ loop_markers 0 2 1 b @ [last xs] else xs)"
    by blast
  have "instrs_of (fn_blocks h') 0 =
        Some [OtherInst 0, CallInst (Some ''floor.loop_merge'') [2, 1], CondBranchInst (Value 0) 1 2]"
    using a i(1) by (simp add: loop_markers_def)
  moreover have "instrs_of (fn_blocks h') 1 =
        Some [OtherInst 1, CallInst (Some ''floor.continue_block'') [], BranchInst 0]"
    using a i(2) by (simp add: loop_markers_def)
  moreover have "instrs_of (fn_blocks h') 2 =
        Some [OtherInst 2, CallInst (Some ''floor.merge_block'') [], ReturnInst None]"
    using a i(3) by (simp add: loop_markers_def)
  ultimately show ?thesis using t0 t1 t2 h' by blast
qed

subsection \<open>The entry block\<close>




subsection \<open>Selections that exit\<close>

text \<open>
  Claim C9. For a node with \<open>merge = Selection\<close>, no selection merge block, the exit
  flag set and a conditional branch as terminator: when exactly one successor ends in an
  unreachable instruction, the annotation is \<^verbatim>\<open>create_selection_merge\<close> with the other
  successor as merge block (the \<^verbatim>\<open>selection_merge\<close> call in front of the terminator of
  the header and the \<^verbatim>\<open>merge_block\<close> marker in that successor, which must have a
  terminator); when both or neither end in unreachable, the function is left as it is.
\<close>

theorem selection_exit_merge_annotation:
  assumes "merge node = Selection"
    and "selection_merge_block node = None"
    and "selection_merge_exit node"
    and "ttype (ir_terminator node) = Condition"
    and "terminator_of (fn_blocks h) (BB node) = Some (CondBranchInst c s0 s1)"
  shows "(ends_in_unreachable (fn_blocks h) s0 \<and> \<not> ends_in_unreachable (fn_blocks h) s1 \<longrightarrow>
            add_merge_annotation entry h node = create_selection_merge h (BB node) s1 \<and>
            (\<forall>t1. terminator_of (fn_blocks h) s1 = Some t1 \<longrightarrow>
               (\<exists>h'. add_merge_annotation entry h node = Inr h' \<and>
                  fn_blocks h' = annotate_blocks (selection_markers (BB node) s1) (fn_blocks h)))) \<and>
         (\<not> ends_in_unreachable (fn_blocks h) s0 \<and> ends_in_unreachable (fn_blocks h) s1 \<longrightarrow>
            add_merge_annotation entry h node = create_selection_merge h (BB node) s0 \<and>
            (\<forall>t0. terminator_of (fn_blocks h) s0 = Some t0 \<longrightarrow>
               (\<exists>h'. add_merge_annotation entry h node = Inr h' \<and>
                  fn_blocks h' = annotate_blocks (selection_markers (BB node) s0) (fn_blocks h)))) \<and>
         (ends_in_unreachable (fn_blocks h) s0 = ends_in_unreachable (fn_blocks h) s1 \<longrightarrow>
            add_merge_annotation entry h node = Inr h)"
proof -
  have a: "add_merge_annotation entry h node =
      (if ends_in_unreachable (fn_blocks h) s0 \<and> \<not> ends_in_unreachable (fn_blocks h) s1
       then create_selection_merge h (BB node) s1
       else if \<not> ends_in_unreachable (fn_blocks h) s0 \<and> ends_in_unreachable (fn_blocks h) s1
       then create_selection_merge h (BB node) s0
       else Inr h)"
    using assms
    by (simp add: add_merge_annotation_def selection_merge_annotation_def
          selection_exit_merge_def Let_def)
  have b: "\<And>m tm. terminator_of (fn_blocks h) m = Some tm \<Longrightarrow>
      \<exists>h'. create_selection_merge h (BB node) m = Inr h' \<and>
        fn_blocks h' = annotate_blocks (selection_markers (BB node) m) (fn_blocks h)"
    using create_selection_merge_blocks[OF assms(5)] by fastforce
  show ?thesis
    unfolding a using b by auto
qed


theorem selection_exit_merge_annotation_witness:
  "merge exit_node = Selection \<and> selection_merge_block exit_node = None \<and>
   selection_merge_exit exit_node \<and> ttype (ir_terminator exit_node) = Condition \<and>
   terminator_of (fn_blocks exit_host) (BB exit_node) = Some (CondBranchInst (Value 0) 1 2) \<and>
   ends_in_unreachable (fn_blocks exit_host) 1 \<and> \<not> ends_in_unreachable (fn_blocks exit_host) 2 \<and>
   (\<exists>h'. add_merge_annotation 0 exit_host exit_node = Inr h' \<and>
      map bb_instrs (fn_blocks h') =
        [[CallInst (Some ''floor.selection_merge'') [2], CondBranchInst (Value 0) 1 2],
         [UnreachableInst],
         [CallInst (Some ''floor.merge_block'') [], ReturnInst None]])"
proof -
  have n: "merge exit_node = Selection" "selection_merge_block exit_node = None"
      "selection_merge_exit exit_node" "ttype (ir_terminator exit_node) = Condition"
    by (simp_all add: exit_node_def plain_node_def plain_terminator_def)
  have t: "terminator_of (fn_blocks exit_host) (BB exit_node) = Some (CondBranchInst (Value 0) 1 2)"
    by (simp add: exit_node_def plain_node_def exit_host_def terminator_of_def instrs_of_def
          getTerminator_def)
  have u: "ends_in_unreachable (fn_blocks exit_host) 1" "\<not> ends_in_unreachable (fn_blocks exit_host) 2"
      "terminator_of (fn_blocks exit_host) 2 = Some (ReturnInst None)"
    by (simp_all add: ends_in_unreachable_def exit_host_def terminator_of_def instrs_of_def
          getTerminator_def)
  from selection_exit_merge_annotation[OF n t, of 0] u
  obtain h' where h': "add_merge_annotation 0 exit_host exit_node = Inr h'"
    and f: "fn_blocks h' = annotate_blocks (selection_markers (BB exit_node) 2) (fn_blocks exit_host)"
    by blast
  have "map bb_instrs (fn_blocks h') =
        [[CallInst (Some ''floor.selection_merge'') [2], CondBranchInst (Value 0) 1 2],
         [UnreachableInst],
         [CallInst (Some ''floor.merge_block'') [], ReturnInst None]]"
    unfolding f
    by (simp add: annotate_blocks_def selection_markers_def with_markers_def exit_host_def
          exit_node_def plain_node_def)
  with n t u h' show ?thesis by auto
qed

subsection \<open>Phis\<close>

lemma find_node_mem: "find_node pool n = Some x \<Longrightarrow> BB x = n \<and> x \<in> set pool"
  by (induction pool) (auto split: if_splits)

lemma incoming_bb_override:
  "find_node pool n = Some src \<Longrightarrow>
   incoming_bb pool n = (case phi_override src of Some b \<Rightarrow> b | None \<Rightarrow> BB src)"
  by (auto simp: incoming_bb_def find_node_mem split: option.splits)

lemma add_incoming_values_Inr:
  "add_incoming_values pool R inc = Inr r \<Longrightarrow>
   r = map (\<lambda>i. (ivalue i, incoming_bb pool (block i))) inc \<and>
   (\<forall>i \<in> set inc. incoming_bb pool (block i) \<in> set R)"
  by (induction inc arbitrary: r) (auto split: if_splits sum.splits)

lemma add_incoming_values_total:
  "\<forall>i \<in> set inc. incoming_bb pool (block i) \<in> set R \<Longrightarrow>
   add_incoming_values pool R inc = Inr (map (\<lambda>i. (ivalue i, incoming_bb pool (block i))) inc)"
  by (induction inc) auto

lemma gather_preds_dups:
  "gather_preds R inc preds uniq dups = Inr (uniq', dups') \<Longrightarrow>
   set dups' \<subseteq> set dups \<union> set R"
proof (induction preds arbitrary: uniq dups)
  case Nil
  then show ?case by auto
next
  case (Cons p preds)
  show ?case
  proof (cases "p \<in> set R")
    case False
    with Cons show ?thesis by simp
  next
    case True
    show ?thesis
    proof (cases "map_of uniq p")
      case None
      with True Cons.prems obtain v where
        "gather_preds R inc preds (uniq @ [(p, v)]) dups = Inr (uniq', dups')"
        by (auto split: option.splits)
      from Cons.IH[OF this] show ?thesis .
    next
      case (Some w)
      with True Cons.prems have "gather_preds R inc preds uniq (dups @ [p]) = Inr (uniq', dups')"
        by simp
      from Cons.IH[OF this] True show ?thesis by auto
    qed
  qed
qed

lemma add_dup_preds_blocks: "add_dup_preds uniq dups = Inr extra \<Longrightarrow> map snd extra = dups"
  by (induction dups arbitrary: extra) (auto split: option.splits sum.splits)

lemma update_incoming_Inr:
  assumes "update_incoming pool R preds piter = Inr inc"
  shows "\<exists>extra. inc = map (\<lambda>i. (ivalue i, incoming_bb pool (block i))) (incoming piter) @ extra \<and>
           snd ` set inc \<subseteq> set R"
proof -
  from assms obtain base where b: "add_incoming_values pool R (incoming piter) = Inr base"
    by (auto simp: update_incoming_def split: if_splits sum.splits)
  from add_incoming_values_Inr[OF b]
  have base: "base = map (\<lambda>i. (ivalue i, incoming_bb pool (block i))) (incoming piter)"
    and br: "snd ` set base \<subseteq> set R" by auto
  show ?thesis
  proof (cases "length base + 1 \<le> length preds")
    case False
    with assms b have "inc = base" by (auto simp: update_incoming_def split: if_splits)
    with base br show ?thesis by simp
  next
    case True
    with assms b obtain uniq' dups' extra where
      g: "gather_preds R base preds [] [] = Inr (uniq', dups')"
      and e: "add_dup_preds uniq' dups' = Inr extra" and i: "inc = base @ extra"
      by (auto simp: update_incoming_def split: if_splits sum.splits prod.splits)
    from gather_preds_dups[OF g] add_dup_preds_blocks[OF e] have "snd ` set extra \<subseteq> set R"
      by (metis Un_empty_left list.set(1) set_map)
    with base br i show ?thesis by auto
  qed
qed

lemma update_phi_rewritten:
  "update_phi pool R preds recs x = Inr y \<Longrightarrow> phi_rewritten pool R recs x y"
proof (cases x)
  case (PHINode p old)
  assume u: "update_phi pool R preds recs x = Inr y"
  with PHINode obtain piter inc where f: "find (\<lambda>elem. phi elem = p) recs = Some piter"
    and i: "update_incoming pool R preds piter = Inr inc" and y: "y = PHINode p inc"
    by (auto simp: update_phi_def split: option.splits sum.splits)
  from update_incoming_Inr[OF i] f y PHINode show ?thesis
    by (auto simp: phi_rewritten_def)
qed (auto simp: update_phi_def phi_rewritten_def)

lemma update_phi_instrs_rewritten:
  "update_phi_instrs pool R preds recs xs = Inr ys \<Longrightarrow> list_all2 (phi_rewritten pool R recs) xs ys"
  by (induction xs arbitrary: ys) (auto split: sum.splits dest: update_phi_rewritten)

lemma update_phis_node_other:
  "update_phis_node pool R F n = Inr F' \<Longrightarrow> b \<noteq> BB n \<Longrightarrow> instrs_of F' b = instrs_of F b"
  by (auto simp: update_phis_node_def instrs_of_upd_instrs split: option.splits if_splits sum.splits)

lemma update_phis_other:
  "update_phis pool R F ns = Inr F' \<Longrightarrow> b \<notin> BB ` set ns \<Longrightarrow> instrs_of F' b = instrs_of F b"
proof (induction ns arbitrary: F)
  case Nil
  then show ?case by simp
next
  case (Cons n ns)
  from Cons.prems obtain F1 where 1: "update_phis_node pool R F n = Inr F1"
    and 2: "update_phis pool R F1 ns = Inr F'"
    by (auto split: sum.splits)
  from Cons.prems have "b \<noteq> BB n" "b \<notin> BB ` set ns" by auto
  then show ?case using Cons.IH[OF 2] update_phis_node_other[OF 1] by simp
qed

lemma update_phis_node_reachable:
  assumes "update_phis_node pool R F n = Inr F'" and "BB n \<in> set R"
    and "instrs_of F (BB n) = Some xs"
  shows "\<exists>ys. instrs_of F' (BB n) = Some ys \<and> list_all2 (phi_rewritten pool R (ir_phi n)) xs ys"
  using assms
  by (auto simp: update_phis_node_def instrs_of_upd_instrs
        split: option.splits if_splits sum.splits dest: update_phi_instrs_rewritten)

lemma update_phis_reachable:
  assumes "update_phis pool R F ns = Inr F'" and "distinct (map BB ns)" and "n \<in> set ns"
    and "BB n \<in> set R" and "instrs_of F (BB n) = Some xs"
  shows "\<exists>ys. instrs_of F' (BB n) = Some ys \<and> list_all2 (phi_rewritten pool R (ir_phi n)) xs ys"
  using assms
proof (induction ns arbitrary: F)
  case Nil
  then show ?case by simp
next
  case (Cons a ns)
  from Cons.prems(1) obtain F1 where 1: "update_phis_node pool R F a = Inr F1"
    and 2: "update_phis pool R F1 ns = Inr F'"
    by (auto split: sum.splits)
  show ?case
  proof (cases "n = a")
    case True
    with Cons.prems have "BB n \<notin> BB ` set ns" by auto
    then have "instrs_of F' (BB n) = instrs_of F1 (BB n)"
      using update_phis_other[OF 2] by simp
    moreover have "\<exists>ys. instrs_of F1 (BB n) = Some ys \<and> list_all2 (phi_rewritten pool R (ir_phi n)) xs ys"
      using update_phis_node_reachable[of pool R F n F1 xs] 1 True Cons.prems by simp
    ultimately show ?thesis by simp
  next
    case False
    with Cons.prems have n0: "n \<in> set ns" "distinct (map BB ns)" "BB a \<notin> BB ` set ns" by auto
    then have "BB n \<noteq> BB a" by (metis imageI)
    with n0 have n: "n \<in> set ns" "distinct (map BB ns)" "BB n \<noteq> BB a" by simp_all
    then have "instrs_of F1 (BB n) = Some xs"
      using update_phis_node_other[OF 1] Cons.prems by simp
    then show ?thesis using Cons.IH[OF 2 n(2) n(1) Cons.prems(4)] by simp
  qed
qed

text \<open>
  Claim C5. After the phi update, a phi \<open>p\<close> of a reachable node of the pool is, at the
  same position of the block, the phi whose incoming entries are those of the node's
  record for \<open>p\<close>, in their order, each with its value and with the block that
  \<open>incoming_bb\<close> gives for its source node: the \<open>phi_override\<close> block of the source node
  when it is set, and the source node's own block otherwise. The entries \<open>extra\<close> behind
  them are the ones for duplicate predecessors.
\<close>

theorem phi_incoming_rewritten_through_override:
  assumes "update_phis pool reachable_blocks F pool = Inr F'"
    and "distinct (map BB pool)"
    and "node \<in> set pool"
    and "BB node \<in> set reachable_blocks"
    and "instrs_of F (BB node) = Some xs"
    and "k < length xs"
    and "xs ! k = PHINode p old"
  shows "\<exists>ys piter extra.
           instrs_of F' (BB node) = Some ys \<and> length ys = length xs \<and>
           find (\<lambda>elem. phi elem = p) (ir_phi node) = Some piter \<and>
           ys ! k = PHINode p (map (\<lambda>i. (ivalue i, incoming_bb pool (block i))) (incoming piter) @ extra) \<and>
           (\<forall>i \<in> set (incoming piter). \<forall>src. find_node pool (block i) = Some src \<longrightarrow>
              incoming_bb pool (block i) = (case phi_override src of Some b \<Rightarrow> b | None \<Rightarrow> BB src))"
proof -
  from update_phis_reachable[OF assms(1-5)]
  obtain ys where ys: "instrs_of F' (BB node) = Some ys"
    and l: "list_all2 (phi_rewritten pool reachable_blocks (ir_phi node)) xs ys"
    by blast
  from l assms(6) have "phi_rewritten pool reachable_blocks (ir_phi node) (xs ! k) (ys ! k)"
    by (rule list_all2_nthD)
  with assms(7) obtain piter extra where
    "find (\<lambda>elem. phi elem = p) (ir_phi node) = Some piter"
    "ys ! k = PHINode p (map (\<lambda>i. (ivalue i, incoming_bb pool (block i))) (incoming piter) @ extra)"
    by (auto simp: phi_rewritten_def)
  moreover have "length ys = length xs" using l by (simp add: list_all2_lengthD)
  ultimately show ?thesis using ys incoming_bb_override by blast
qed

subsection \<open>Duplicate incoming blocks\<close>

lemma getIncomingValueForBlock_map_of:
  "getIncomingValueForBlock inc b = map_of (map (\<lambda>(v, x). (x, v)) inc) b"
  by (induction inc) auto

lemma getIncomingValueForBlock_Some_iff:
  "(\<exists>v. getIncomingValueForBlock inc b = Some v) = (b \<in> snd ` set inc)"
  by (induction inc) auto

text \<open>Import.\<close>

lemma translate_incoming_blocks:
  "translate_incoming ids seen inc = Inr r \<Longrightarrow>
   distinct (map block r) \<and> set (map block r) = snd ` set inc - set seen"
proof (induction inc arbitrary: seen r)
  case Nil
  then show ?case by simp
next
  case (Cons a inc)
  obtain v b where a: "a = (v, b)" by (cases a)
  show ?case
  proof (cases "b \<in> set seen")
    case True
    with Cons.prems a have "translate_incoming ids seen inc = Inr r" by simp
    from Cons.IH[OF this] True a show ?thesis by auto
  next
    case False
    with Cons.prems a obtain r' where r': "translate_incoming ids (b # seen) inc = Inr r'"
      and r: "r = \<lparr>block = b, ivalue = v\<rparr> # r'"
      by (auto simp: bb_map_at_def split: if_splits sum.splits)
    from Cons.IH[OF r'] r False a show ?thesis by auto
  qed
qed

lemma translate_incoming_first:
  "translate_incoming ids seen inc = Inr r \<Longrightarrow> i \<in> set r \<Longrightarrow>
   getIncomingValueForBlock inc (block i) = Some (ivalue i)"
proof (induction inc arbitrary: seen r)
  case Nil
  then show ?case by simp
next
  case (Cons a inc)
  obtain v b where a: "a = (v, b)" by (cases a)
  show ?case
  proof (cases "b \<in> set seen")
    case True
    with Cons.prems a have t: "translate_incoming ids seen inc = Inr r" by simp
    from translate_incoming_blocks[OF t] Cons.prems(2) True have "block i \<noteq> b" by auto
    with Cons.IH[OF t Cons.prems(2)] a show ?thesis by simp
  next
    case False
    with Cons.prems a obtain r' where r': "translate_incoming ids (b # seen) inc = Inr r'"
      and r: "r = \<lparr>block = b, ivalue = v\<rparr> # r'"
      by (auto simp: bb_map_at_def split: if_splits sum.splits)
    show ?thesis
    proof (cases "i \<in> set r'")
      case True
      from translate_incoming_blocks[OF r'] True have "block i \<noteq> b" by auto
      with Cons.IH[OF r' True] a show ?thesis by simp
    next
      case False
      with Cons.prems(2) r have "i = \<lparr>block = b, ivalue = v\<rparr>" by simp
      with a show ?thesis by simp
    qed
  qed
qed

lemma translate_incoming_total:
  "snd ` set inc \<subseteq> set ids \<Longrightarrow> \<exists>r. translate_incoming ids seen inc = Inr r"
proof (induction inc arbitrary: seen)
  case Nil
  then show ?case by simp
next
  case (Cons a inc)
  obtain v b where a: "a = (v, b)" by (cases a)
  from Cons.prems have s: "snd ` set inc \<subseteq> set ids" and b: "b \<in> set ids"
    using a by auto
  from Cons.IH[OF s, of seen] obtain r1 where r1: "translate_incoming ids seen inc = Inr r1" by blast
  from Cons.IH[OF s, of "b # seen"] obtain r2 where r2: "translate_incoming ids (b # seen) inc = Inr r2"
    by blast
  show ?case using a b r1 r2 by (simp add: bb_map_at_def)
qed

text \<open>Emission.\<close>

lemma gather_preds_invariant:
  assumes "gather_preds R inc preds uniq dups = Inr (uniq', dups')"
    and "distinct (map fst uniq)"
    and "set dups \<subseteq> fst ` set uniq"
    and "\<forall>(p, v) \<in> set uniq. getIncomingValueForBlock inc p = Some v"
  shows "distinct (map fst uniq') \<and> set dups' \<subseteq> fst ` set uniq' \<and>
         (\<forall>(p, v) \<in> set uniq'. getIncomingValueForBlock inc p = Some v) \<and>
         mset (map fst uniq') + mset dups' =
           mset (map fst uniq) + mset dups + mset (filter (\<lambda>p. p \<in> set R) preds)"
  using assms
proof (induction preds arbitrary: uniq dups)
  case Nil
  then show ?case by simp
next
  case (Cons p preds)
  show ?case
  proof (cases "p \<in> set R")
    case False
    with Cons.prems(1) have g: "gather_preds R inc preds uniq dups = Inr (uniq', dups')" by simp
    from Cons.IH[OF g Cons.prems(2-4)] False show ?thesis by simp
  next
    case True
    show ?thesis
    proof (cases "map_of uniq p")
      case None
      with True Cons.prems(1) obtain v where v: "getIncomingValueForBlock inc p = Some v"
        and g: "gather_preds R inc preds (uniq @ [(p, v)]) dups = Inr (uniq', dups')"
        by (auto split: option.splits)
      from None have pn: "p \<notin> fst ` set uniq" by (simp add: map_of_eq_None_iff)
      have 1: "distinct (map fst (uniq @ [(p, v)]))" using Cons.prems(2) pn by simp
      have 2: "set dups \<subseteq> fst ` set (uniq @ [(p, v)])" using Cons.prems(3) by auto
      have 3: "\<forall>(q, w) \<in> set (uniq @ [(p, v)]). getIncomingValueForBlock inc q = Some w"
        using Cons.prems(4) v by auto
      from Cons.IH[OF g 1 2 3] True show ?thesis by simp
    next
      case (Some w)
      with True Cons.prems(1) have g: "gather_preds R inc preds uniq (dups @ [p]) = Inr (uniq', dups')"
        by simp
      from Some have "p \<in> fst ` set uniq" by (metis map_of_eq_None_iff option.distinct(1))
      then have 2: "set (dups @ [p]) \<subseteq> fst ` set uniq" using Cons.prems(3) by simp
      from Cons.IH[OF g Cons.prems(2) 2 Cons.prems(4)] True show ?thesis by simp
    qed
  qed
qed

lemma gather_preds_total:
  "\<forall>p \<in> set preds. p \<in> set R \<longrightarrow> p \<in> snd ` set inc \<Longrightarrow>
   \<exists>r. gather_preds R inc preds uniq dups = Inr r"
proof (induction preds arbitrary: uniq dups)
  case Nil
  then show ?case by simp
next
  case (Cons p preds)
  then show ?case
    using getIncomingValueForBlock_Some_iff[of inc p]
    by (cases "getIncomingValueForBlock inc p") auto
qed

lemma gather_preds_keys:
  assumes "gather_preds R inc preds uniq dups = Inr (uniq', dups')"
  shows "fst ` set uniq' = fst ` set uniq \<union> {p \<in> set preds. p \<in> set R}"
  using assms
proof (induction preds arbitrary: uniq dups)
  case Nil
  then show ?case by simp
next
  case (Cons p preds)
  show ?case
  proof (cases "p \<in> set R")
    case False
    with Cons show ?thesis by auto
  next
    case True
    show ?thesis
    proof (cases "map_of uniq p")
      case None
      with True Cons.prems obtain v where
        g: "gather_preds R inc preds (uniq @ [(p, v)]) dups = Inr (uniq', dups')"
        by (auto split: option.splits)
      from Cons.IH[OF g] True show ?thesis by auto
    next
      case (Some w)
      with True Cons.prems have g: "gather_preds R inc preds uniq (dups @ [p]) = Inr (uniq', dups')"
        by simp
      from Some have "p \<in> fst ` set uniq" by (metis map_of_eq_None_iff option.distinct(1))
      with Cons.IH[OF g] True show ?thesis by auto
    qed
  qed
qed

lemma add_dup_preds_result:
  "set dups \<subseteq> fst ` set uniq \<Longrightarrow>
   \<exists>extra. add_dup_preds uniq dups = Inr extra \<and> map snd extra = dups \<and>
     (\<forall>(v, d) \<in> set extra. map_of uniq d = Some v)"
proof (induction dups)
  case Nil
  then show ?case by simp
next
  case (Cons d dups)
  then obtain extra where e: "add_dup_preds uniq dups = Inr extra" "map snd extra = dups"
      "\<forall>(v, d) \<in> set extra. map_of uniq d = Some v"
    by auto
  from Cons.prems have "d \<in> fst ` set uniq" by simp
  then obtain v where "map_of uniq d = Some v"
    by (metis map_of_eq_None_iff not_None_eq)
  with e show ?case by auto
qed

lemma mset_eq_distinct:
  "distinct xs \<Longrightarrow> distinct ys \<Longrightarrow> set xs = set ys \<Longrightarrow> mset xs = mset ys"
  by (simp add: set_eq_iff_mset_eq_distinct)

lemma update_incoming_rematerializes:
  assumes ne: "incoming piter \<noteq> []"
    and d: "distinct (map snd (emitted_incoming pool piter))"
    and s: "snd ` set (emitted_incoming pool piter) = {p \<in> set preds. p \<in> set R}"
  shows "\<exists>extra. update_incoming pool R preds piter = Inr (emitted_incoming pool piter @ extra) \<and>
           mset (map snd (emitted_incoming pool piter @ extra)) = mset (filter (\<lambda>p. p \<in> set R) preds) \<and>
           (\<forall>(v, b) \<in> set extra. getIncomingValueForBlock (emitted_incoming pool piter) b = Some v)"
proof -
  let ?base = "emitted_incoming pool piter"
  let ?fl = "filter (\<lambda>p. p \<in> set R) preds"
  have sb: "set (map snd ?base) = set ?fl" using s by auto
  have "\<forall>i \<in> set (incoming piter). incoming_bb pool (block i) \<in> set R"
    using s by (auto simp: emitted_incoming_def image_iff) (metis (mono_tags, lifting) imageI mem_Collect_eq snd_conv)
  then have a: "add_incoming_values pool R (incoming piter) = Inr ?base"
    unfolding emitted_incoming_def by (rule add_incoming_values_total)
  show ?thesis
  proof (cases "length ?base + 1 \<le> length preds")
    case True
    have "\<forall>p \<in> set preds. p \<in> set R \<longrightarrow> p \<in> snd ` set ?base" using s by auto
    from gather_preds_total[OF this, of "[]" "[]"]
    obtain uniq' dups' where g: "gather_preds R ?base preds [] [] = Inr (uniq', dups')"
      by (metis surj_pair)
    from gather_preds_invariant[OF g] have
      du: "distinct (map fst uniq')" and sub: "set dups' \<subseteq> fst ` set uniq'"
      and vals: "\<forall>(p, v) \<in> set uniq'. getIncomingValueForBlock ?base p = Some v"
      and ms: "mset (map fst uniq') + mset dups' = mset ?fl"
      by simp_all
    from gather_preds_keys[OF g] have keys: "set (map fst uniq') = set ?fl" by auto
    from add_dup_preds_result[OF sub] obtain extra where
      e: "add_dup_preds uniq' dups' = Inr extra" "map snd extra = dups'"
      "\<forall>(v, d) \<in> set extra. map_of uniq' d = Some v"
      by blast
    have "mset (map snd ?base) = mset (map fst uniq')"
      by (rule mset_eq_distinct[OF d du]) (simp only: sb keys)
    then have m: "mset (map snd (?base @ extra)) = mset ?fl"
      using ms e(2) by simp
    have v: "\<forall>(v, b) \<in> set extra. getIncomingValueForBlock ?base b = Some v"
    proof (clarify)
      fix v b assume "(v, b) \<in> set extra"
      with e(3) have "map_of uniq' b = Some v" by auto
      then have "(b, v) \<in> set uniq'" by (rule map_of_SomeD)
      with vals show "getIncomingValueForBlock ?base b = Some v" by auto
    qed
    have "update_incoming pool R preds piter = Inr (?base @ extra)"
      using ne a True g e(1) by (simp add: update_incoming_def)
    with m v show ?thesis by blast
  next
    case False
    have "length ?fl \<le> length preds" by (rule length_filter_le)
    with False have "length ?fl \<le> length ?base" by linarith
    then have "length ?fl \<le> length (map snd ?base)" by simp
    also have "\<dots> = card (set (map snd ?base))" using distinct_card[OF d] by simp
    also have "\<dots> = card (set ?fl)" using sb by simp
    finally have "length ?fl \<le> card (set ?fl)" .
    then have "card (set ?fl) = length ?fl" using card_length[of ?fl] by simp
    then have "distinct ?fl" by (rule card_distinct)
    then have m: "mset (map snd ?base) = mset ?fl"
      using d sb by (intro mset_eq_distinct)
    have "update_incoming pool R preds piter = Inr ?base"
      using ne a False by (simp add: update_incoming_def)
    with m show ?thesis by simp
  qed
qed

lemma getIncomingValueForBlock_mem:
  "getIncomingValueForBlock inc b = Some v \<Longrightarrow> (v, b) \<in> set inc"
  by (induction inc) (auto split: if_splits)

lemma mset_pairs_by_block:
  "\<forall>(v, b) \<in> set xs. v = f b \<Longrightarrow> mset xs = image_mset (\<lambda>b. (f b, b)) (mset (map snd xs))"
  by (induction xs) auto

lemma import_emit_round_trip:
  assumes t: "translate_incoming ids [] host_incoming = Inr r"
    and ne: "host_incoming \<noteq> []"
    and no_override: "\<forall>b \<in> snd ` set host_incoming. incoming_bb pool b = b"
    and valid: "mset (map snd host_incoming) = mset preds"
    and same: "\<forall>(v, b) \<in> set host_incoming. \<forall>(v', b') \<in> set host_incoming. b = b' \<longrightarrow> v = v'"
    and reach: "set preds \<subseteq> set R"
  shows "\<exists>inc. update_incoming pool R preds \<lparr>phi = p, incoming = r\<rparr> = Inr inc \<and>
           mset inc = mset host_incoming"
proof -
  let ?piter = "\<lparr>phi = p, incoming = r\<rparr>"
  let ?base = "emitted_incoming pool ?piter"
  let ?f = "\<lambda>b. the (getIncomingValueForBlock host_incoming b)"
  from translate_incoming_blocks[OF t] have db: "distinct (map block r)"
    and sb: "set (map block r) = snd ` set host_incoming" by simp_all
  have "\<forall>i \<in> set r. incoming_bb pool (block i) = block i"
  proof
    fix i assume "i \<in> set r"
    then have "block i \<in> set (map block r)" by simp
    with sb no_override show "incoming_bb pool (block i) = block i" by blast
  qed
  then have base: "?base = map (\<lambda>i. (ivalue i, block i)) r"
    by (simp add: emitted_incoming_def)
  then have msb: "map snd ?base = map block r" by (simp add: o_def)
  have sp: "set preds = snd ` set host_incoming"
    using valid by (metis set_map set_mset_mset)
  have "set (map block r) \<noteq> {}" using sb ne by simp
  then have 1: "incoming ?piter \<noteq> []" by auto
  have 2: "distinct (map snd ?base)" using db msb by simp
  have  "set (map snd ?base) = {p \<in> set preds. p \<in> set R}"
    unfolding msb sb using sp reach by auto
  then have 3: "snd ` set ?base = {p \<in> set preds. p \<in> set R}" by simp
  from update_incoming_rematerializes[OF 1 2 3]
  obtain extra where u: "update_incoming pool R preds ?piter = Inr (?base @ extra)"
    and m: "mset (map snd (?base @ extra)) = mset (filter (\<lambda>p. p \<in> set R) preds)"
    and v: "\<forall>(v, b) \<in> set extra. getIncomingValueForBlock ?base b = Some v"
    by blast
  have fl: "filter (\<lambda>p. p \<in> set R) preds = preds" using reach by (auto simp: filter_id_conv)
  have vb: "\<forall>(v, b) \<in> set ?base. v = ?f b"
    using translate_incoming_first[OF t] by (auto simp: base)
  have ve: "\<forall>(v, b) \<in> set extra. v = ?f b"
  proof clarify
    fix v b assume "(v, b) \<in> set extra"
    with v have "getIncomingValueForBlock ?base b = Some v" by auto
    then have "(v, b) \<in> set ?base" by (rule getIncomingValueForBlock_mem)
    with vb show "v = ?f b" by auto
  qed
  have vh: "\<forall>(v, b) \<in> set host_incoming. v = ?f b"
  proof clarify
    fix v b assume vb: "(v, b) \<in> set host_incoming"
    then have "b \<in> snd ` set host_incoming" by force
    then obtain w where w: "getIncomingValueForBlock host_incoming b = Some w"
      using getIncomingValueForBlock_Some_iff[of host_incoming b] by auto
    then have "(w, b) \<in> set host_incoming" by (rule getIncomingValueForBlock_mem)
    with same vb have "v = w" by auto
    with w show "v = ?f b" by simp
  qed
  have "\<forall>(v, b) \<in> set (?base @ extra). v = ?f b" using vb ve by auto
  then have "mset (?base @ extra) = image_mset (\<lambda>b. (?f b, b)) (mset (map snd (?base @ extra)))"
    by (rule mset_pairs_by_block)
  also have "\<dots> = image_mset (\<lambda>b. (?f b, b)) (mset (map snd host_incoming))"
    unfolding m fl valid ..
  also have "\<dots> = mset host_incoming"
    using mset_pairs_by_block[OF vh] by simp
  finally show ?thesis using u by blast
qed

text \<open>
  Claim C4. Import (\<open>translate_incoming\<close>, started with no block seen) keeps one entry
  for each incoming block of the host phi, with the value of the first occurrence of
  that block. Emission (\<open>update_incoming\<close>) of a non-empty record whose emitted blocks
  are distinct and are the reachable predecessors of the block emits the entries of the
  record and behind them one entry for each further occurrence of a reachable
  predecessor, with the value of the entry retained for that block; the incoming
  blocks are then the reachable predecessors with their multiplicities, and the
  incoming count is the count of reachable predecessors.
\<close>

theorem duplicate_incoming_blocks_rematerialized:
  assumes "translate_incoming ids [] host_incoming = Inr r"
    and "incoming piter \<noteq> []"
    and "distinct (map snd (emitted_incoming pool piter))"
    and "snd ` set (emitted_incoming pool piter) = {p \<in> set preds. p \<in> set R}"
  shows "distinct (map block r) \<and> set (map block r) = snd ` set host_incoming \<and>
         (\<forall>i \<in> set r. getIncomingValueForBlock host_incoming (block i) = Some (ivalue i)) \<and>
         (\<exists>extra.
            update_incoming pool R preds piter = Inr (emitted_incoming pool piter @ extra) \<and>
            (\<forall>(v, b) \<in> set extra.
               getIncomingValueForBlock (emitted_incoming pool piter) b = Some v) \<and>
            mset (map snd (emitted_incoming pool piter @ extra)) =
              mset (filter (\<lambda>p. p \<in> set R) preds) \<and>
            length (emitted_incoming pool piter @ extra) =
              length (filter (\<lambda>p. p \<in> set R) preds))"
proof -
  from update_incoming_rematerializes[OF assms(2-4)]
  obtain extra where u: "update_incoming pool R preds piter = Inr (emitted_incoming pool piter @ extra)"
    and m: "mset (map snd (emitted_incoming pool piter @ extra)) = mset (filter (\<lambda>p. p \<in> set R) preds)"
    and v: "\<forall>(v, b) \<in> set extra. getIncomingValueForBlock (emitted_incoming pool piter) b = Some v"
    by blast
  from m have "length (map snd (emitted_incoming pool piter @ extra)) = length (filter (\<lambda>p. p \<in> set R) preds)"
    by (rule mset_eq_length)
  then have l: "length (emitted_incoming pool piter @ extra) = length (filter (\<lambda>p. p \<in> set R) preds)"
    by simp
  show ?thesis
    using translate_incoming_blocks[OF assms(1)] translate_incoming_first[OF assms(1)] u m v l
    by auto
qed

lemma default_value_never_matches:
  "d \<in> set cs \<Longrightarrow> case_value d = None \<Longrightarrow> length hs = length cs \<Longrightarrow> \<not> cases_equal hs cs"
proof (induction hs cs rule: cases_equal.induct)
  case (1 v b rest c cs)
  then show ?case by auto
qed simp_all

lemma switch_never_kept:
  assumes "\<forall>k \<in> set (cases term). is_default k \<longrightarrow> case_value k = None"
  shows "operands_equal (SwitchInst c d cs) term \<noteq> Inr True"
proof (cases "find is_default (cases term)")
  case None
  then show ?thesis by (simp add: operands_equal_def default_case_bb_def)
next
  case (Some k)
  then have "k \<in> set (cases term)" "is_default k"
    by (auto simp: find_Some_iff)
  with assms have "length cs = length (cases term) \<longrightarrow> \<not> cases_equal cs (cases term)"
    using default_value_never_matches by blast
  with Some show ?thesis by (auto simp: operands_equal_def default_case_bb_def)
qed

text \<open>
  Claim C6, at a switch that nothing has changed. \<open>switch_node\<close> is the record that
  import makes of the switch of \<open>switch_host\<close>, so the type, the condition, the default
  destination and every case value and successor of the host terminator are those of
  the record. The terminator is still not left in place: the comparison takes
  \<^verbatim>\<open>cases.size()\<close>, which counts the default entry, for the number of cases, and
  \<open>keeps_terminator\<close> is false, so \<open>update_terminator\<close> erases the switch and creates it
  again from the record (\<open>add_or_update_terminator\<close>, which skips the default entry, and
  so returns the same function).
\<close>

theorem unchanged_switch_is_rewritten:
  "translate_bb (fn_blocks switch_host) (plain_node ''sw'' 0) = Inr switch_node \<and>
   keeps_terminator [SwitchInst (Value 0) 1 [(Value 7, 2)]] switch_node = Inr False \<and>
   update_terminator switch_host switch_node = add_or_update_terminator switch_host switch_node \<and>
   add_or_update_terminator switch_host switch_node = Inr (switch_host, switch_node)"
  by (simp add: translate_bb_def switch_host_def switch_node_def plain_node_def plain_terminator_def
        instrs_of_def translate_instr_def bb_map_at_def keeps_terminator_def getTerminator_def
        prev_of_last_def operands_equal_def default_case_bb_def needs_fake_selection_def
        update_terminator_def add_or_update_terminator_def erase_existing_terminator_def
        terminator_of_def erase_terminator_def upd_instrs_def insert_at_end_def)

subsection \<open>New blocks\<close>

lemma fold_max_ge: "a \<le> fold max xs (a::nat) \<and> (\<forall>x \<in> set xs. x \<le> fold max xs a)"
proof (induction xs arbitrary: a)
  case Nil
  then show ?case by simp
next
  case (Cons y ys)
  from Cons.IH[of "max y a"] show ?case by auto
qed

lemma fresh_bb_new: "fresh_bb F \<notin> bb_id ` set F"
proof
  assume "fresh_bb F \<in> bb_id ` set F"
  then have "fresh_bb F \<in> set (map bb_id F)" by simp
  then have "fresh_bb F \<le> fold max (map bb_id F) 0" using fold_max_ge by blast
  then show False by (simp add: fresh_bb_def)
qed

lemma find_bb_None_iff: "(find_bb F b = None) = (b \<notin> bb_id ` set F)"
  by (induction F) auto

lemma ids_upd_instrs [simp]: "map bb_id (upd_instrs b f F) = map bb_id F"
  by (simp add: upd_instrs_def)

lemma ids_insert_block_before:
  "bb_id ` set (insert_block_before pos n F) = insert (bb_id n) (bb_id ` set F)"
proof (cases pos)
  case None
  then show ?thesis by simp
next
  case (Some b)
  have "bb_id ` set (insert_block_before (Some b) n F) = insert (bb_id n) (bb_id ` set F)"
    by (induction F) auto
  with Some show ?thesis by simp
qed

lemma find_bb_append:
  "find_bb (xs @ ys) b = (case find_bb xs b of None \<Rightarrow> find_bb ys b | Some x \<Rightarrow> Some x)"
  by (induction xs) auto

lemma find_bb_insert_block_before:
  assumes "bb_id n \<notin> bb_id ` set F"
  shows "find_bb (insert_block_before pos n F) x = (if x = bb_id n then Some n else find_bb F x)"
proof (cases pos)
  case None
  show ?thesis
  proof (cases "x = bb_id n")
    case True
    with assms have "find_bb F x = None" by (simp add: find_bb_None_iff)
    with True None show ?thesis by (simp add: find_bb_append)
  next
    case False
    with None show ?thesis by (simp add: find_bb_append split: option.splits)
  qed
next
  case (Some b)
  have "find_bb (insert_block_before (Some b) n F) x = (if x = bb_id n then Some n else find_bb F x)"
    using assms by (induction F) auto
  with Some show ?thesis by simp
qed

lemma find_bb_annotate_blocks:
  "find_bb (annotate_blocks ms F) b =
     map_option (\<lambda>y. y\<lparr>bb_instrs := with_markers (ms b) (bb_instrs y)\<rparr>) (find_bb F b)"
  by (induction F) (auto simp: annotate_blocks_def)

lemma ids_annotate_blocks [simp]: "map bb_id (annotate_blocks ms F) = map bb_id F"
  by (simp add: annotate_blocks_def)

lemma find_bb_upd_instrs_if:
  "find_bb (upd_instrs b f F) x =
     (if x = b then map_option (\<lambda>y. y\<lparr>bb_instrs := f (bb_instrs y)\<rparr>) (find_bb F x)
      else find_bb F x)"
proof (cases "find_bb F x")
  case None
  then show ?thesis by (auto simp: find_bb_upd_instrs)
next
  case (Some y)
  then have "bb_id y = x" by (simp add: find_bb_mem)
  with Some show ?thesis by (auto simp: find_bb_upd_instrs)
qed

lemma ids_erase_existing_terminator [simp]:
  "map bb_id (erase_existing_terminator b F) = map bb_id F"
  by (simp add: erase_existing_terminator_def erase_terminator_def split: option.splits)

lemma find_bb_erase_existing_terminator:
  "find_bb (erase_existing_terminator b F) x =
     (if x = b then map_option (\<lambda>y. y\<lparr>bb_instrs := without_terminator (bb_instrs y)\<rparr>) (find_bb F x)
      else find_bb F x)"
proof (cases "find_bb F b")
  case None
  then show ?thesis
    by (auto simp: erase_existing_terminator_def terminator_of_def instrs_of_def)
next
  case (Some y)
  then have "bb_id y = b" by (simp add: find_bb_mem)
  with Some show ?thesis
    by (auto simp: erase_existing_terminator_def terminator_of_def instrs_of_def
          erase_terminator_def find_bb_upd_instrs_if without_terminator_def
          split: option.splits)
qed

lemma set_map_ids: "bb_id ` set F = set (map bb_id F)"
  by simp

lemma instrs_of_Some_id: "instrs_of F b = Some xs \<Longrightarrow> b \<in> bb_id ` set F"
  by (auto simp: instrs_of_def dest: find_bb_mem)

lemma add_or_update_terminator_fake_selection:
  assumes nf: "needs_fake_selection node"
    and c: "condition (ir_terminator node) = Some c"
    and t: "true_block (ir_terminator node) = Some t"
    and f: "false_block (ir_terminator node) = Some f"
    and xs: "instrs_of (fn_blocks h) (BB node) = Some xs"
  shows "\<exists>h' fs ur.
           add_or_update_terminator h node = Inr (h', node\<lparr>phi_override := Some fs\<rparr>) \<and>
           fs \<notin> bb_id ` set (fn_blocks h) \<and> ur \<notin> bb_id ` set (fn_blocks h) \<and> fs \<noteq> ur \<and>
           instrs_of (fn_blocks h') (BB node) = Some (without_terminator xs @ [BranchInst fs]) \<and>
           find_bb (fn_blocks h') fs =
             Some \<lparr>bb_id = fs, bb_name = name node @ ''.fake_selection'',
                   bb_instrs = [CallInst (Some ''floor.selection_merge'') [ur], CondBranchInst c t f]\<rparr> \<and>
           find_bb (fn_blocks h') ur =
             Some \<lparr>bb_id = ur, bb_name = name node @ ''.unreachable'',
                   bb_instrs = [CallInst (Some ''floor.merge_block'') [], UnreachableInst]\<rparr> \<and>
           (\<forall>x. x \<notin> {BB node, fs, ur} \<longrightarrow> find_bb (fn_blocks h') x = find_bb (fn_blocks h) x)"
proof -
  define b where "b = BB node"
  define F0 where "F0 = erase_existing_terminator b (fn_blocks h)"
  define fs where "fs = fresh_bb F0"
  define B1 where "B1 = \<lparr>bb_id = fs, bb_name = name node @ ''.fake_selection'', bb_instrs = []\<rparr>"
  define F1 where "F1 = insert_block_before (getNextNode F0 b) B1 F0"
  define ur where "ur = fresh_bb F1"
  define B2 where "B2 = \<lparr>bb_id = ur, bb_name = name node @ ''.unreachable'', bb_instrs = []\<rparr>"
  define F2 where "F2 = insert_block_before (getNextNode F1 b) B2 F1"
  define F5 where "F5 = insert_at_end fs (CondBranchInst c t f)
                          (insert_at_end ur UnreachableInst (insert_at_end b (BranchInst fs) F2))"
  have ids0: "bb_id ` set F0 = bb_id ` set (fn_blocks h)"
    unfolding F0_def set_map_ids by simp
  have fs_new: "fs \<notin> bb_id ` set F0" unfolding fs_def by (rule fresh_bb_new)
  have ids1: "bb_id ` set F1 = insert fs (bb_id ` set F0)"
    by (simp add: F1_def ids_insert_block_before B1_def)
  have ur_new: "ur \<notin> bb_id ` set F1" unfolding ur_def by (rule fresh_bb_new)
  have b_old: "b \<in> bb_id ` set (fn_blocks h)" using xs b_def by (simp add: instrs_of_Some_id)
  have ne: "fs \<noteq> ur" "b \<noteq> fs" "b \<noteq> ur" "ur \<notin> bb_id ` set (fn_blocks h)"
      "fs \<notin> bb_id ` set (fn_blocks h)"
    using fs_new ur_new ids0 ids1 b_old by auto
  have f1: "\<And>x. find_bb F1 x = (if x = fs then Some B1 else find_bb F0 x)"
    using fs_new by (simp add: F1_def find_bb_insert_block_before B1_def)
  have f2: "\<And>x. find_bb F2 x = (if x = ur then Some B2 else find_bb F1 x)"
    using ur_new by (simp add: F2_def find_bb_insert_block_before B2_def)
  have f5: "\<And>x. find_bb F5 x =
      (if x = fs then Some (B1\<lparr>bb_instrs := [CondBranchInst c t f]\<rparr>)
       else if x = ur then Some (B2\<lparr>bb_instrs := [UnreachableInst]\<rparr>)
       else if x = b then map_option (\<lambda>y. y\<lparr>bb_instrs := without_terminator (bb_instrs y) @ [BranchInst fs]\<rparr>)
                            (find_bb (fn_blocks h) b)
       else find_bb (fn_blocks h) x)"
    using ne
    by (auto simp: F5_def insert_at_end_def find_bb_upd_instrs_if f2 f1 F0_def
          find_bb_erase_existing_terminator B1_def B2_def option.map_comp o_def)
  have t5: "terminator_of F5 fs = Some (CondBranchInst c t f)"
      "terminator_of F5 ur = Some UnreachableInst"
    using ne by (simp_all add: terminator_of_def instrs_of_def f5 getTerminator_def B1_def B2_def)
  from create_selection_merge_blocks[of "h\<lparr>fn_blocks := F5\<rparr>" fs _ ur, simplified, OF t5]
  obtain mf where cs: "create_selection_merge (h\<lparr>fn_blocks := F5\<rparr>) fs ur =
      Inr \<lparr>fn_blocks = annotate_blocks (selection_markers fs ur) F5, module_functions = mf\<rparr>"
    by blast
  let ?h' = "\<lparr>fn_blocks = annotate_blocks (selection_markers fs ur) F5, module_functions = mf\<rparr>"
  have ty: "ttype (ir_terminator node) = Condition" using nf by (simp add: needs_fake_selection_def)
  have res: "add_or_update_terminator h node = Inr (?h', node\<lparr>phi_override := Some fs\<rparr>)"
    using nf c t f ty cs
    by (simp add: add_or_update_terminator_def Let_def BasicBlock_Create_def
          F5_def F2_def F1_def F0_def B1_def B2_def ur_def fs_def b_def)
  have fh: "\<And>x. find_bb (fn_blocks ?h') x =
      map_option (\<lambda>y. y\<lparr>bb_instrs := with_markers (selection_markers fs ur x) (bb_instrs y)\<rparr>) (find_bb F5 x)"
    by (simp add: find_bb_annotate_blocks)
  have 1: "instrs_of (fn_blocks ?h') (BB node) = Some (without_terminator xs @ [BranchInst fs])"
    using ne xs unfolding instrs_of_def fh f5 b_def[symmetric]
    by (auto simp: selection_markers_def with_markers_def)
  have 2: "find_bb (fn_blocks ?h') fs =
             Some \<lparr>bb_id = fs, bb_name = name node @ ''.fake_selection'',
                   bb_instrs = [CallInst (Some ''floor.selection_merge'') [ur], CondBranchInst c t f]\<rparr>"
    using ne unfolding fh f5 by (simp add: selection_markers_def with_markers_def B1_def)
  have 3: "find_bb (fn_blocks ?h') ur =
             Some \<lparr>bb_id = ur, bb_name = name node @ ''.unreachable'',
                   bb_instrs = [CallInst (Some ''floor.merge_block'') [], UnreachableInst]\<rparr>"
    using ne unfolding fh f5 by (simp add: selection_markers_def with_markers_def B2_def)
  have 4: "\<forall>x. x \<notin> {BB node, fs, ur} \<longrightarrow> find_bb (fn_blocks ?h') x = find_bb (fn_blocks h) x"
    unfolding fh f5 b_def[symmetric]
    by (auto simp: selection_markers_def with_markers_def option.map_ident)
  show ?thesis using res ne 1 2 3 4 by blast
qed

subsection \<open>Fake continue and fake merge blocks\<close>

lemma terminator_of_find_bb:
  "terminator_of F b = (case find_bb F b of None \<Rightarrow> None | Some y \<Rightarrow> getTerminator (bb_instrs y))"
  by (simp add: terminator_of_def instrs_of_def split: option.splits)

lemma terminator_of_Some_id: "terminator_of F b = Some t \<Longrightarrow> b \<in> bb_id ` set F"
  by (auto simp: terminator_of_find_bb split: option.splits dest: find_bb_mem)

lemma loop_merge_fake_merge:
  assumes m: "merge_block (ir_merge_info node) = None"
    and c: "continue_block (ir_merge_info node) = Some c"
    and tb: "terminator_of (fn_blocks h) (BB node) = Some tb"
    and tc: "terminator_of (fn_blocks h) (loop_continue_bb node c) = Some tc"
  shows "\<exists>h' fm.
           loop_merge_annotation entry h node = Inr h' \<and>
           fm \<notin> bb_id ` set (fn_blocks h) \<and>
           find_bb (fn_blocks h') fm =
             Some \<lparr>bb_id = fm, bb_name = name node @ ''.fake_merge'',
                   bb_instrs = [CallInst (Some ''floor.merge_block'') [], UnreachableInst]\<rparr> \<and>
           (\<forall>x. x \<noteq> fm \<longrightarrow>
              find_bb (fn_blocks h') x =
                find_bb (annotate_blocks (loop_markers (BB node) fm (loop_continue_bb node c))
                           (fn_blocks h)) x)"
proof -
  define b where "b = BB node"
  define cb where "cb = loop_continue_bb node c"
  define F where "F = fn_blocks h"
  define fm where "fm = fresh_bb F"
  define B where "B = \<lparr>bb_id = fm, bb_name = name node @ ''.fake_merge'', bb_instrs = []\<rparr>"
  define F2 where "F2 = insert_at_end fm UnreachableInst (insert_block_before (getNextNode F b) B F)"
  have fm_new: "fm \<notin> bb_id ` set F" unfolding fm_def by (rule fresh_bb_new)
  have old: "b \<in> bb_id ` set F" "cb \<in> bb_id ` set F"
    using tb tc by (auto simp: b_def cb_def F_def dest: terminator_of_Some_id)
  then have ne: "b \<noteq> fm" "cb \<noteq> fm" using fm_new by auto
  have f2: "\<And>x. find_bb F2 x = (if x = fm then Some (B\<lparr>bb_instrs := [UnreachableInst]\<rparr>) else find_bb F x)"
    using fm_new
    by (auto simp: F2_def insert_at_end_def find_bb_upd_instrs_if find_bb_insert_block_before B_def)
  have t2: "terminator_of F2 b = Some tb" "terminator_of F2 fm = Some UnreachableInst"
      "terminator_of F2 cb = Some tc"
    using ne tb tc
    by (simp_all add: terminator_of_find_bb f2 b_def cb_def F_def B_def getTerminator_def)
  from create_loop_merge_blocks[of "h\<lparr>fn_blocks := F2\<rparr>" b _ fm _ cb, simplified, OF t2]
  obtain mf where cl: "create_loop_merge (h\<lparr>fn_blocks := F2\<rparr>) b fm cb =
      Inr \<lparr>fn_blocks = annotate_blocks (loop_markers b fm cb) F2, module_functions = mf\<rparr>"
    by blast
  let ?h' = "\<lparr>fn_blocks = annotate_blocks (loop_markers b fm cb) F2, module_functions = mf\<rparr>"
  have res: "loop_merge_annotation entry h node = Inr ?h'"
    using m c cl
    by (simp add: loop_merge_annotation_def Let_def BasicBlock_Create_def
          F2_def B_def fm_def F_def b_def cb_def)
  have 1: "find_bb (fn_blocks ?h') fm =
             Some \<lparr>bb_id = fm, bb_name = name node @ ''.fake_merge'',
                   bb_instrs = [CallInst (Some ''floor.merge_block'') [], UnreachableInst]\<rparr>"
    using ne by (simp add: find_bb_annotate_blocks f2 loop_markers_def with_markers_def B_def)
  have 2: "\<forall>x. x \<noteq> fm \<longrightarrow>
              find_bb (fn_blocks ?h') x = find_bb (annotate_blocks (loop_markers b fm cb) F) x"
    by (simp add: find_bb_annotate_blocks f2)
  show ?thesis
    using res fm_new 1 2 unfolding b_def cb_def F_def by blast
qed

lemma ids_insert_block_before_Some:
  "map bb_id (insert_block_before (Some b) n F) =
     (if b \<in> bb_id ` set F
      then takeWhile (\<lambda>x. x \<noteq> b) (map bb_id F) @ bb_id n # dropWhile (\<lambda>x. x \<noteq> b) (map bb_id F)
      else map bb_id F @ [bb_id n])"
  by (induction F) auto

lemma takeWhile_before_new:
  "n \<noteq> b \<Longrightarrow> b \<in> set ids \<Longrightarrow>
   takeWhile (\<lambda>x. x \<noteq> b) (takeWhile (\<lambda>x. x \<noteq> b) ids @ n # dropWhile (\<lambda>x. x \<noteq> b) ids) =
     takeWhile (\<lambda>x. x \<noteq> b) ids @ [n] \<and>
   dropWhile (\<lambda>x. x \<noteq> b) (takeWhile (\<lambda>x. x \<noteq> b) ids @ n # dropWhile (\<lambda>x. x \<noteq> b) ids) =
     dropWhile (\<lambda>x. x \<noteq> b) ids"
  by (induction ids) auto

lemma ids_set_upd_instrs: "bb_id ` set (upd_instrs b f F) = bb_id ` set F"
  by (metis ids_upd_instrs set_map)

lemma add_undef_incoming_eq:
  "add_undef_incoming fc xs = map (add_undef fc) (takeWhile isPHI xs) @ dropWhile isPHI xs"
  by (induction fc xs rule: add_undef_incoming.induct) auto

lemma loop_merge_fake_continue:
  assumes m: "merge_block (ir_merge_info node) = Some m"
    and c: "continue_block (ir_merge_info node) = None"
    and tb: "terminator_of (fn_blocks h) (BB node) = Some tb"
    and tm: "terminator_of (fn_blocks h) m = Some tm"
  shows "\<exists>h' fc ne.
           loop_merge_annotation entry h node = Inr h' \<and>
           fc \<notin> bb_id ` set (fn_blocks h) \<and> ne \<notin> bb_id ` set (fn_blocks h) \<and> fc \<noteq> ne \<and>
           find_bb (fn_blocks h') fc =
             Some \<lparr>bb_id = fc, bb_name = name node @ ''.fake_continue'',
                   bb_instrs = [CallInst (Some ''floor.continue_block'') [], BranchInst (BB node)]\<rparr> \<and>
           (BB node = entry \<longrightarrow>
              find_bb (fn_blocks h') ne =
                Some \<lparr>bb_id = ne, bb_name = name node @ ''.new_entry.fake_continue'',
                      bb_instrs = [BranchInst (BB node)]\<rparr>) \<and>
           map bb_id (fn_blocks h') =
             takeWhile (\<lambda>x. x \<noteq> BB node) (map bb_id (fn_blocks h)) @
             (if BB node = entry then [ne] else []) @ [fc] @
             dropWhile (\<lambda>x. x \<noteq> BB node) (map bb_id (fn_blocks h)) \<and>
           instrs_of (fn_blocks h') (BB node) =
             map_option (\<lambda>xs. add_undef_incoming fc (with_markers (loop_markers (BB node) m fc (BB node)) xs))
               (instrs_of (fn_blocks h) (BB node)) \<and>
           (\<forall>x. x \<in> bb_id ` set (fn_blocks h) \<longrightarrow> x \<noteq> BB node \<longrightarrow>
              find_bb (fn_blocks h') x =
                find_bb (annotate_blocks (loop_markers (BB node) m fc) (fn_blocks h)) x)"
proof -
  define b where "b = BB node"
  define F where "F = fn_blocks h"
  define ne where "ne = fresh_bb F"
  define NE where "NE = \<lparr>bb_id = ne, bb_name = name node @ ''.new_entry.fake_continue'', bb_instrs = []\<rparr>"
  define F1 where "F1 = (if b = entry then insert_at_end ne (BranchInst b) (insert_block_before (Some b) NE F) else F)"
  define fc where "fc = fresh_bb F1"
  define FC where "FC = \<lparr>bb_id = fc, bb_name = name node @ ''.fake_continue'', bb_instrs = []\<rparr>"
  define F3 where "F3 = insert_at_end fc (BranchInst b) (insert_block_before (Some b) FC F1)"
  have ne_new: "ne \<notin> bb_id ` set F" unfolding ne_def by (rule fresh_bb_new)
  have old: "b \<in> bb_id ` set F" "m \<in> bb_id ` set F"
    using tb tm by (auto simp: b_def F_def dest: terminator_of_Some_id)
  have ids1: "bb_id ` set F1 = (if b = entry then insert ne (bb_id ` set F) else bb_id ` set F)"
    by (simp add: F1_def insert_at_end_def ids_set_upd_instrs ids_insert_block_before NE_def)
  have fc_new1: "fc \<notin> bb_id ` set F1" unfolding fc_def by (rule fresh_bb_new)
  then have fc_new: "fc \<notin> bb_id ` set F" and fcne: "b = entry \<longrightarrow> fc \<noteq> ne"
    using ids1 by (auto split: if_splits)
  have ne': "b \<noteq> ne" "b \<noteq> fc" "m \<noteq> fc" "m \<noteq> ne" using old ne_new fc_new by auto
  have f1: "\<And>x. find_bb F1 x =
      (if b = entry \<and> x = ne then Some (NE\<lparr>bb_instrs := [BranchInst b]\<rparr>) else find_bb F x)"
    using ne_new
    by (auto simp: F1_def insert_at_end_def find_bb_upd_instrs_if find_bb_insert_block_before NE_def)
  have f3: "\<And>x. find_bb F3 x =
      (if x = fc then Some (FC\<lparr>bb_instrs := [BranchInst b]\<rparr>) else find_bb F1 x)"
    using fc_new1
    by (auto simp: F3_def insert_at_end_def find_bb_upd_instrs_if find_bb_insert_block_before FC_def)
  have t3: "terminator_of F3 b = Some tb" "terminator_of F3 m = Some tm"
      "terminator_of F3 fc = Some (BranchInst b)"
    using ne' tb tm
    by (simp_all add: terminator_of_find_bb f3 f1 b_def F_def FC_def getTerminator_def)
  from create_loop_merge_blocks[of "h\<lparr>fn_blocks := F3\<rparr>" b _ m _ fc, simplified, OF t3]
  obtain mf where cl: "create_loop_merge (h\<lparr>fn_blocks := F3\<rparr>) b m fc =
      Inr \<lparr>fn_blocks = annotate_blocks (loop_markers b m fc) F3, module_functions = mf\<rparr>"
    by blast
  define F4 where "F4 = upd_instrs b (add_undef_incoming fc) (annotate_blocks (loop_markers b m fc) F3)"
  let ?h' = "\<lparr>fn_blocks = F4, module_functions = mf\<rparr>"
  have res: "loop_merge_annotation entry h node = Inr ?h'"
  proof (cases "BB node = entry")
    case True
    with m c cl show ?thesis
      by (simp add: loop_merge_annotation_def Let_def BasicBlock_Create_def
            F4_def F3_def FC_def fc_def F1_def NE_def ne_def F_def b_def)
  next
    case False
    with m c cl show ?thesis
      by (simp add: loop_merge_annotation_def Let_def BasicBlock_Create_def
            F4_def F3_def FC_def fc_def F1_def NE_def ne_def F_def b_def)
  qed
  have f4: "\<And>x. find_bb F4 x =
      (if x = b then map_option (\<lambda>y. y\<lparr>bb_instrs := add_undef_incoming fc
                                      (with_markers (loop_markers b m fc b) (bb_instrs y))\<rparr>) (find_bb F b)
       else if x = fc then Some (FC\<lparr>bb_instrs := [CallInst (Some ''floor.continue_block'') [], BranchInst b]\<rparr>)
       else if b = entry \<and> x = ne then Some (NE\<lparr>bb_instrs := [BranchInst b]\<rparr>)
       else map_option (\<lambda>y. y\<lparr>bb_instrs := with_markers (loop_markers b m fc x) (bb_instrs y)\<rparr>) (find_bb F x))"
    using ne' fcne
    by (auto simp: F4_def find_bb_upd_instrs_if find_bb_annotate_blocks f3 f1 option.map_comp o_def
          loop_markers_def with_markers_def FC_def NE_def)
  have 1: "find_bb F4 fc =
             Some \<lparr>bb_id = fc, bb_name = name node @ ''.fake_continue'',
                   bb_instrs = [CallInst (Some ''floor.continue_block'') [], BranchInst b]\<rparr>"
    using ne' by (simp add: f4 FC_def)
  have 2: "b = entry \<longrightarrow> find_bb F4 ne =
             Some \<lparr>bb_id = ne, bb_name = name node @ ''.new_entry.fake_continue'',
                   bb_instrs = [BranchInst b]\<rparr>"
  proof
    assume e: "b = entry"
    with fcne have "ne \<noteq> fc" by auto
    with e ne' show "find_bb F4 ne =
             Some \<lparr>bb_id = ne, bb_name = name node @ ''.new_entry.fake_continue'',
                   bb_instrs = [BranchInst b]\<rparr>"
      by (simp add: f4 NE_def)
  qed
  have 3: "instrs_of F4 b =
             map_option (\<lambda>xs. add_undef_incoming fc (with_markers (loop_markers b m fc b) xs))
               (instrs_of F b)"
    by (simp add: instrs_of_def f4 option.map_comp o_def)
  have 4: "\<forall>x. x \<in> bb_id ` set F \<longrightarrow> x \<noteq> b \<longrightarrow>
              find_bb F4 x = find_bb (annotate_blocks (loop_markers b m fc) F) x"
    using ne_new fc_new by (auto simp: f4 find_bb_annotate_blocks)
  have bs: "b \<in> set (map bb_id F)" using old by simp
  have 5: "map bb_id F4 =
             takeWhile (\<lambda>x. x \<noteq> b) (map bb_id F) @ (if b = entry then [ne] else []) @ [fc] @
             dropWhile (\<lambda>x. x \<noteq> b) (map bb_id F)"
  proof (cases "b = entry")
    case True
    have i1: "map bb_id F1 = takeWhile (\<lambda>x. x \<noteq> b) (map bb_id F) @ ne # dropWhile (\<lambda>x. x \<noteq> b) (map bb_id F)"
      using True old by (simp add: F1_def insert_at_end_def ids_insert_block_before_Some NE_def)
    have "b \<in> bb_id ` set F1" using ids1 old by auto
    then have "map bb_id F4 = takeWhile (\<lambda>x. x \<noteq> b) (map bb_id F1) @ fc # dropWhile (\<lambda>x. x \<noteq> b) (map bb_id F1)"
      by (simp add: F4_def F3_def insert_at_end_def ids_insert_block_before_Some FC_def)
    then show ?thesis
      unfolding i1 using takeWhile_before_new[OF ne'(1)[symmetric] bs] True by simp
  next
    case False
    then have "F1 = F" by (simp add: F1_def)
    then show ?thesis
      using False old by (simp add: F4_def F3_def insert_at_end_def ids_insert_block_before_Some FC_def)
  qed
  have 6: "fc \<noteq> ne \<or> b \<noteq> entry" using fcne by auto
  show ?thesis
  proof (cases "b = entry")
    case True
    with fcne have "fc \<noteq> ne" by simp
    then show ?thesis
      using res fc_new ne_new 1 2 3 4 5 unfolding b_def F_def
      by (intro exI[of _ ?h'] exI[of _ fc] exI[of _ ne]) simp
  next
    case False
    obtain ne' where n: "ne' \<notin> bb_id ` set (fn_blocks h)" "fc \<noteq> ne'"
      using fresh_bb_new[of "\<lparr>bb_id = fc, bb_name = [], bb_instrs = []\<rparr> # fn_blocks h"] by auto
    show ?thesis
      using res fc_new n 1 3 4 5 False unfolding b_def F_def
      by (intro exI[of _ ?h'] exI[of _ fc] exI[of _ ne']) simp
  qed
qed

subsection \<open>Reachability\<close>


lemma visited_successors_terminator: "visited_successors t = Some ss \<Longrightarrow> isTerminator t"
  by (cases t) auto




lemma compute_simple_reachability_blocks:
  "compute_simple_reachability F st vis = Inr R \<Longrightarrow>
   \<forall>v \<in> set vis. \<exists>t. terminator_of F v = Some t \<Longrightarrow>
   \<forall>v \<in> set R. \<exists>t. terminator_of F v = Some t"
proof (induction F st vis rule: compute_simple_reachability.induct)
  case (1 F vis)
  then show ?case by simp
next
  case (2 F b stack vis)
  show ?case
  proof (cases "b \<in> set vis")
    case True
    with 2 show ?thesis by simp
  next
    case False
    with "2.prems"(1) obtain x t ss where x: "find_bb F b = Some x"
      and t: "getTerminator (bb_instrs x) = Some t" and ss: "visited_successors t = Some ss"
      and r: "compute_simple_reachability F (ss @ stack) (b # vis) = Inr R"
      by (auto split: option.splits)
    have "\<forall>v \<in> set (b # vis). \<exists>t. terminator_of F v = Some t"
      using "2.prems"(2) x t by (simp add: terminator_of_find_bb)
    from "2.IH"(2)[OF False x t ss r this] show ?thesis .
  qed
qed



subsection \<open>Removal of the unreachable blocks\<close>

lemma erase_unreachable_instrs_ids [simp]:
  "map bb_id (erase_unreachable_instrs R F ns) = map bb_id F"
  by (induction ns arbitrary: F) auto






subsection \<open>The phi update keeps the control flow\<close>




















lemma add_undef_incoming_no_phi: "\<not> isPHI x \<Longrightarrow> add_undef_incoming fc (x # xs) = x # xs"
  by (cases x) auto

lemma add_undef_incoming_markers_aux:
  "xs \<noteq> [] \<Longrightarrow> \<not> isPHI (last xs) \<Longrightarrow> ms \<noteq> [] \<Longrightarrow> \<not> isPHI (hd ms) \<Longrightarrow>
   add_undef_incoming fc (butlast xs @ ms @ [last xs]) =
     map (add_undef fc) (takeWhile isPHI xs) @ butlast (dropWhile isPHI xs) @ ms @ [last xs]"
proof (induction xs)
  case Nil
  then show ?case by simp
next
  case (Cons x xs)
  obtain m ms' where ms: "ms = m # ms'" using Cons.prems(3) by (cases ms) auto
  with Cons.prems(4) have m: "\<not> isPHI m" by simp
  show ?case
  proof (cases "xs = []")
    case True
    with Cons.prems(2) ms m show ?thesis by (simp add: add_undef_incoming_no_phi)
  next
    case False
    with Cons.prems have l: "\<not> isPHI (last xs)" by simp
    show ?thesis
    proof (cases x)
      case (PHINode p inc)
      with Cons.IH[OF False l Cons.prems(3,4)] False show ?thesis by simp
    qed (use False in \<open>simp_all\<close>)
  qed
qed

lemma terminator_not_phi: "isTerminator t \<Longrightarrow> \<not> isPHI t"
  by (cases t) auto

lemma add_undef_incoming_with_markers:
  assumes "getTerminator xs = Some t" and "ms \<noteq> []" and "\<not> isPHI (hd ms)"
  shows "add_undef_incoming fc (with_markers ms xs) =
           map (add_undef fc) (takeWhile isPHI xs) @ butlast (dropWhile isPHI xs) @ ms @ [t]"
proof -
  from assms(1) have x: "xs \<noteq> []" "last xs = t" "isTerminator t"
    by (auto simp: getTerminator_def split: if_splits)
  then have "\<not> isPHI (last xs)" by (simp add: terminator_not_phi)
  from add_undef_incoming_markers_aux[OF x(1) this assms(2,3)] x(2) assms(2)
  show ?thesis by (simp add: with_markers_def)
qed

text \<open>
  Claim C2, as amended. Let \<open>needs_fake_selection\<close> hold of a node: it is annotated
  \<open>Loop\<close>, its terminator record is a conditional branch, and both targets differ from
  the merge block and from the continue block of the loop. Then its host terminator is
  never kept, and \<open>add_or_update_terminator\<close> succeeds, changing this and nothing else:
  the block of the node keeps the instructions in front of its terminator and ends in
  an unconditional branch to a new block \<open>fs\<close> named \<^verbatim>\<open><name>.fake_selection\<close>; \<open>fs\<close> holds
  the \<^verbatim>\<open>selection_merge\<close> call for a second new block \<open>ur\<close>, then the conditional branch
  of the record; \<open>ur\<close> is named \<^verbatim>\<open><name>.unreachable\<close> and holds the \<^verbatim>\<open>merge_block\<close>
  marker of that annotation, then the unreachable instruction; and \<open>phi_override\<close> of
  the node is \<open>fs\<close>.
\<close>

theorem fake_selection_wraps_conditional:
  assumes "needs_fake_selection node"
    and "condition (ir_terminator node) = Some c"
    and "true_block (ir_terminator node) = Some t"
    and "false_block (ir_terminator node) = Some f"
    and "instrs_of (fn_blocks h) (BB node) = Some xs"
  shows "keeps_terminator xs node \<noteq> Inr True \<and>
         (keeps_terminator xs node = Inr False \<longrightarrow>
            update_terminator h node = add_or_update_terminator h node) \<and>
         (\<exists>h' fs ur.
            add_or_update_terminator h node = Inr (h', node\<lparr>phi_override := Some fs\<rparr>) \<and>
            fs \<notin> bb_id ` set (fn_blocks h) \<and> ur \<notin> bb_id ` set (fn_blocks h) \<and> fs \<noteq> ur \<and>
            instrs_of (fn_blocks h') (BB node) = Some (without_terminator xs @ [BranchInst fs]) \<and>
            find_bb (fn_blocks h') fs =
              Some \<lparr>bb_id = fs, bb_name = name node @ ''.fake_selection'',
                    bb_instrs = [CallInst (Some ''floor.selection_merge'') [ur], CondBranchInst c t f]\<rparr> \<and>
            find_bb (fn_blocks h') ur =
              Some \<lparr>bb_id = ur, bb_name = name node @ ''.unreachable'',
                    bb_instrs = [CallInst (Some ''floor.merge_block'') [], UnreachableInst]\<rparr> \<and>
            (\<forall>x. x \<notin> {BB node, fs, ur} \<longrightarrow> find_bb (fn_blocks h') x = find_bb (fn_blocks h) x))"
proof (intro conjI)
  show k: "keeps_terminator xs node \<noteq> Inr True"
    using assms(1)
    by (auto simp: keeps_terminator_def split: option.splits sum.splits)
  show "keeps_terminator xs node = Inr False \<longrightarrow>
          update_terminator h node = add_or_update_terminator h node"
    using assms(5) by (simp add: update_terminator_def)
  show "\<exists>h' fs ur.
            add_or_update_terminator h node = Inr (h', node\<lparr>phi_override := Some fs\<rparr>) \<and>
            fs \<notin> bb_id ` set (fn_blocks h) \<and> ur \<notin> bb_id ` set (fn_blocks h) \<and> fs \<noteq> ur \<and>
            instrs_of (fn_blocks h') (BB node) = Some (without_terminator xs @ [BranchInst fs]) \<and>
            find_bb (fn_blocks h') fs =
              Some \<lparr>bb_id = fs, bb_name = name node @ ''.fake_selection'',
                    bb_instrs = [CallInst (Some ''floor.selection_merge'') [ur], CondBranchInst c t f]\<rparr> \<and>
            find_bb (fn_blocks h') ur =
              Some \<lparr>bb_id = ur, bb_name = name node @ ''.unreachable'',
                    bb_instrs = [CallInst (Some ''floor.merge_block'') [], UnreachableInst]\<rparr> \<and>
            (\<forall>x. x \<notin> {BB node, fs, ur} \<longrightarrow> find_bb (fn_blocks h') x = find_bb (fn_blocks h) x)"
    using assms by (rule add_or_update_terminator_fake_selection)
qed

text \<open>
  Claim C3, as amended. For a node annotated \<open>Loop\<close> whose block ends in a terminator,
  \<open>add_merge_annotation\<close> does this. With neither a merge block nor a continue block it
  aborts (\<open>InvalidLoopMerge\<close>). With a merge block \<open>m\<close> and no continue block it creates
  one block \<open>fc\<close> named \<^verbatim>\<open><name>.fake_continue\<close> that branches to the header, directly in
  front of the header, and when the header is the entry it first creates the block
  \<open>ne\<close> named \<^verbatim>\<open><name>.new_entry.fake_continue\<close>, which branches to the header and
  stands in front of \<open>fc\<close>; every phi at the head of the header gets an undef entry for
  \<open>fc\<close>, and the loop is annotated with \<open>m\<close> and \<open>fc\<close>. With a continue block \<open>c\<close> and no
  merge block it creates one block \<open>fm\<close> named \<^verbatim>\<open><name>.fake_merge\<close>, and the loop is
  annotated with \<open>fm\<close> and \<open>c\<close>; \<open>fm\<close> holds the \<^verbatim>\<open>merge_block\<close> marker of that
  annotation, then the unreachable instruction.
\<close>

theorem loop_merge_fake_blocks:
  assumes "merge node = Loop"
    and "terminator_of (fn_blocks h) (BB node) = Some tb"
    and "instrs_of (fn_blocks h) (BB node) = Some xs"
  shows "(merge_block (ir_merge_info node) = None \<and> continue_block (ir_merge_info node) = None \<longrightarrow>
            add_merge_annotation entry h node = Inl InvalidLoopMerge) \<and>
         (\<forall>m tm. merge_block (ir_merge_info node) = Some m \<and>
                 continue_block (ir_merge_info node) = None \<and>
                 terminator_of (fn_blocks h) m = Some tm \<longrightarrow>
            (\<exists>h' fc ne.
               add_merge_annotation entry h node = Inr h' \<and>
               fc \<notin> bb_id ` set (fn_blocks h) \<and> ne \<notin> bb_id ` set (fn_blocks h) \<and> fc \<noteq> ne \<and>
               find_bb (fn_blocks h') fc =
                 Some \<lparr>bb_id = fc, bb_name = name node @ ''.fake_continue'',
                       bb_instrs = [CallInst (Some ''floor.continue_block'') [], BranchInst (BB node)]\<rparr> \<and>
               (BB node = entry \<longrightarrow>
                  find_bb (fn_blocks h') ne =
                    Some \<lparr>bb_id = ne, bb_name = name node @ ''.new_entry.fake_continue'',
                          bb_instrs = [BranchInst (BB node)]\<rparr>) \<and>
               map bb_id (fn_blocks h') =
                 takeWhile (\<lambda>x. x \<noteq> BB node) (map bb_id (fn_blocks h)) @
                 (if BB node = entry then [ne] else []) @ [fc] @
                 dropWhile (\<lambda>x. x \<noteq> BB node) (map bb_id (fn_blocks h)) \<and>
               instrs_of (fn_blocks h') (BB node) =
                 Some (map (add_undef fc) (takeWhile isPHI xs) @ butlast (dropWhile isPHI xs) @
                       loop_markers (BB node) m fc (BB node) @ [tb]) \<and>
               (\<forall>x. x \<in> bb_id ` set (fn_blocks h) \<longrightarrow> x \<noteq> BB node \<longrightarrow>
                  find_bb (fn_blocks h') x =
                    find_bb (annotate_blocks (loop_markers (BB node) m fc) (fn_blocks h)) x))) \<and>
         (\<forall>c tc. merge_block (ir_merge_info node) = None \<and>
                 continue_block (ir_merge_info node) = Some c \<and>
                 terminator_of (fn_blocks h) (loop_continue_bb node c) = Some tc \<longrightarrow>
            (\<exists>h' fm.
               add_merge_annotation entry h node = Inr h' \<and>
               fm \<notin> bb_id ` set (fn_blocks h) \<and>
               find_bb (fn_blocks h') fm =
                 Some \<lparr>bb_id = fm, bb_name = name node @ ''.fake_merge'',
                       bb_instrs = [CallInst (Some ''floor.merge_block'') [], UnreachableInst]\<rparr> \<and>
               (\<forall>x. x \<noteq> fm \<longrightarrow>
                  find_bb (fn_blocks h') x =
                    find_bb (annotate_blocks (loop_markers (BB node) fm (loop_continue_bb node c))
                               (fn_blocks h)) x)))"
proof -
  have a: "add_merge_annotation entry h node = loop_merge_annotation entry h node"
    using assms(1,2) by (simp add: add_merge_annotation_def)
  have gt: "getTerminator xs = Some tb"
    using assms(2,3) by (simp add: terminator_of_def)
  have 1: "merge_block (ir_merge_info node) = None \<and> continue_block (ir_merge_info node) = None \<longrightarrow>
            add_merge_annotation entry h node = Inl InvalidLoopMerge"
    unfolding a by (simp add: loop_merge_annotation_def)
  have 2: "\<exists>h' fc ne.
               add_merge_annotation entry h node = Inr h' \<and>
               fc \<notin> bb_id ` set (fn_blocks h) \<and> ne \<notin> bb_id ` set (fn_blocks h) \<and> fc \<noteq> ne \<and>
               find_bb (fn_blocks h') fc =
                 Some \<lparr>bb_id = fc, bb_name = name node @ ''.fake_continue'',
                       bb_instrs = [CallInst (Some ''floor.continue_block'') [], BranchInst (BB node)]\<rparr> \<and>
               (BB node = entry \<longrightarrow>
                  find_bb (fn_blocks h') ne =
                    Some \<lparr>bb_id = ne, bb_name = name node @ ''.new_entry.fake_continue'',
                          bb_instrs = [BranchInst (BB node)]\<rparr>) \<and>
               map bb_id (fn_blocks h') =
                 takeWhile (\<lambda>x. x \<noteq> BB node) (map bb_id (fn_blocks h)) @
                 (if BB node = entry then [ne] else []) @ [fc] @
                 dropWhile (\<lambda>x. x \<noteq> BB node) (map bb_id (fn_blocks h)) \<and>
               instrs_of (fn_blocks h') (BB node) =
                 Some (map (add_undef fc) (takeWhile isPHI xs) @ butlast (dropWhile isPHI xs) @
                       loop_markers (BB node) m fc (BB node) @ [tb]) \<and>
               (\<forall>x. x \<in> bb_id ` set (fn_blocks h) \<longrightarrow> x \<noteq> BB node \<longrightarrow>
                  find_bb (fn_blocks h') x =
                    find_bb (annotate_blocks (loop_markers (BB node) m fc) (fn_blocks h)) x)"
    if m: "merge_block (ir_merge_info node) = Some m"
      and c: "continue_block (ir_merge_info node) = None"
      and tm: "terminator_of (fn_blocks h) m = Some tm" for m tm
  proof -
    from loop_merge_fake_continue[OF m c assms(2) tm, of entry]
    obtain h' fc ne where r: "loop_merge_annotation entry h node = Inr h'"
      "fc \<notin> bb_id ` set (fn_blocks h)" "ne \<notin> bb_id ` set (fn_blocks h)" "fc \<noteq> ne"
      "find_bb (fn_blocks h') fc =
             Some \<lparr>bb_id = fc, bb_name = name node @ ''.fake_continue'',
                   bb_instrs = [CallInst (Some ''floor.continue_block'') [], BranchInst (BB node)]\<rparr>"
      "BB node = entry \<longrightarrow>
              find_bb (fn_blocks h') ne =
                Some \<lparr>bb_id = ne, bb_name = name node @ ''.new_entry.fake_continue'',
                      bb_instrs = [BranchInst (BB node)]\<rparr>"
      "map bb_id (fn_blocks h') =
             takeWhile (\<lambda>x. x \<noteq> BB node) (map bb_id (fn_blocks h)) @
             (if BB node = entry then [ne] else []) @ [fc] @
             dropWhile (\<lambda>x. x \<noteq> BB node) (map bb_id (fn_blocks h))"
      "instrs_of (fn_blocks h') (BB node) =
             map_option (\<lambda>xs. add_undef_incoming fc (with_markers (loop_markers (BB node) m fc (BB node)) xs))
               (instrs_of (fn_blocks h) (BB node))"
      "\<forall>x. x \<in> bb_id ` set (fn_blocks h) \<longrightarrow> x \<noteq> BB node \<longrightarrow>
              find_bb (fn_blocks h') x =
                find_bb (annotate_blocks (loop_markers (BB node) m fc) (fn_blocks h)) x"
      by blast
    have "loop_markers (BB node) m fc (BB node) \<noteq> []" "\<not> isPHI (hd (loop_markers (BB node) m fc (BB node)))"
      by (simp_all add: loop_markers_def)
    from add_undef_incoming_with_markers[OF gt this, of fc] r(8) assms(3)
    have i: "instrs_of (fn_blocks h') (BB node) =
                 Some (map (add_undef fc) (takeWhile isPHI xs) @ butlast (dropWhile isPHI xs) @
                       loop_markers (BB node) m fc (BB node) @ [tb])"
      by simp
    show ?thesis
      unfolding a
      by (intro exI[of _ h'] exI[of _ fc] exI[of _ ne] conjI) (rule r i)+
  qed
  have 3: "\<exists>h' fm.
               add_merge_annotation entry h node = Inr h' \<and>
               fm \<notin> bb_id ` set (fn_blocks h) \<and>
               find_bb (fn_blocks h') fm =
                 Some \<lparr>bb_id = fm, bb_name = name node @ ''.fake_merge'',
                       bb_instrs = [CallInst (Some ''floor.merge_block'') [], UnreachableInst]\<rparr> \<and>
               (\<forall>x. x \<noteq> fm \<longrightarrow>
                  find_bb (fn_blocks h') x =
                    find_bb (annotate_blocks (loop_markers (BB node) fm (loop_continue_bb node c))
                               (fn_blocks h)) x)"
    if m: "merge_block (ir_merge_info node) = None"
      and c: "continue_block (ir_merge_info node) = Some c"
      and tc: "terminator_of (fn_blocks h) (loop_continue_bb node c) = Some tc" for c tc
    unfolding a using loop_merge_fake_merge[OF m c assms(2) tc, of entry] .
  show ?thesis using 1 2 3 by blast
qed

lemmas ex_defs = loop_host_def loop_pool_def loop_hdr_def branch_node_def condition_node_def
  plain_node_def plain_terminator_def loop_host_terminators_def loop_pool_terminators_def
  loop_host_emitted_def loop_pool_emitted_def loop_blocks_phis_def

lemmas term_defs = update_terminator_def keeps_terminator_def getTerminator_def prev_of_last_def
  instrs_of_def operands_equal_def needs_fake_selection_def add_or_update_terminator_def
  erase_existing_terminator_def terminator_of_def erase_terminator_def upd_instrs_def
  insert_at_end_def BasicBlock_Create_def fresh_bb_def create_selection_merge_def
  insert_merge_block_marker_def insert_before_terminator_def getOrInsertFunction_def Let_def

subsection \<open>The emission of a loop with a conditional header\<close>

lemma loop_add_or_update:
  "add_or_update_terminator loop_host loop_hdr =
     Inr (loop_host_terminators, loop_hdr\<lparr>phi_override := Some 7\<rparr>)"
  by (simp add: ex_defs term_defs)



lemma loop_update_phis:
  "update_phis loop_pool_terminators [5, 3, 4, 2, 7, 1, 0] (fn_blocks loop_host_terminators)
     loop_pool_terminators = Inr loop_blocks_phis"
  by (simp add: ex_defs update_phis_node_def instrs_of_def update_phi_def update_incoming_def
        incoming_bb_def predecessors_def block_successors_def getTerminator_def upd_instrs_def)




lemmas loop_defs = self_loop_host_def self_loop_node_def branch_node_def plain_node_def
  plain_terminator_def self_loop_fake_merge_def self_loop_fake_continue_def

lemmas merge_defs = add_merge_annotation_def loop_merge_annotation_def loop_continue_bb_def
  terminator_of_def instrs_of_def getTerminator_def BasicBlock_Create_def fresh_bb_def
  insert_at_end_def upd_instrs_def create_loop_merge_def insert_merge_block_marker_def
  insert_continue_block_marker_def insert_before_terminator_def getOrInsertFunction_def Let_def

lemma self_loop_fake_merge_run:
  "add_merge_annotation 0 self_loop_host (self_loop_node None (Some 0)) = Inr self_loop_fake_merge"
  by (simp add: loop_defs merge_defs)

lemma self_loop_fake_continue_run:
  "add_merge_annotation 0 self_loop_host (self_loop_node (Some 1) None) = Inr self_loop_fake_continue"
  by (simp add: loop_defs merge_defs)

text \<open>
  The fake merge block of the loop \<open>self_loop_host\<close> holds two instructions, the
  \<^verbatim>\<open>merge_block\<close> marker and the unreachable instruction.
\<close>

theorem fake_merge_block_counterexample:
  "merge (self_loop_node None (Some 0)) = Loop \<and>
   merge_block (ir_merge_info (self_loop_node None (Some 0))) = None \<and>
   add_merge_annotation 0 self_loop_host (self_loop_node None (Some 0)) = Inr self_loop_fake_merge \<and>
   find_bb (fn_blocks self_loop_fake_merge) 2 =
     Some \<lparr>bb_id = 2, bb_name = ''h.fake_merge'',
           bb_instrs = [CallInst (Some ''floor.merge_block'') [], UnreachableInst]\<rparr> \<and>
   [CallInst (Some ''floor.merge_block'') [], UnreachableInst] \<noteq> [UnreachableInst]"
  using self_loop_fake_merge_run
  by (simp add: self_loop_node_def branch_node_def plain_node_def self_loop_fake_merge_def)

text \<open>
  The block \<^verbatim>\<open>hdr.unreachable\<close> that the fake selection of \<open>loop_hdr\<close> merges at holds two
  instructions, the \<^verbatim>\<open>merge_block\<close> marker and the unreachable instruction.
\<close>

theorem fake_selection_unreachable_block_counterexample:
  "needs_fake_selection loop_hdr \<and>
   add_or_update_terminator loop_host loop_hdr =
     Inr (loop_host_terminators, loop_hdr\<lparr>phi_override := Some 7\<rparr>) \<and>
   find_bb (fn_blocks loop_host_terminators) 8 =
     Some \<lparr>bb_id = 8, bb_name = ''hdr.unreachable'',
           bb_instrs = [CallInst (Some ''floor.merge_block'') [], UnreachableInst]\<rparr> \<and>
   [CallInst (Some ''floor.merge_block'') [], UnreachableInst] \<noteq> [UnreachableInst]"
  using loop_add_or_update
  by (simp add: needs_fake_selection_def loop_hdr_def condition_node_def plain_node_def
        plain_terminator_def loop_host_terminators_def)

theorem fake_selection_wraps_conditional_witness:
  "needs_fake_selection loop_hdr \<and>
   condition (ir_terminator loop_hdr) = Some (Value 0) \<and>
   true_block (ir_terminator loop_hdr) = Some 2 \<and>
   false_block (ir_terminator loop_hdr) = Some 3 \<and>
   instrs_of (fn_blocks loop_host) (BB loop_hdr) =
     Some [PHINode 7 [(Value 1, 0), (Value 2, 4)], CondBranchInst (Value 0) 2 3] \<and>
   (\<exists>h' fs ur.
      add_or_update_terminator loop_host loop_hdr = Inr (h', loop_hdr\<lparr>phi_override := Some fs\<rparr>) \<and>
      instrs_of (fn_blocks h') (BB loop_hdr) =
        Some [PHINode 7 [(Value 1, 0), (Value 2, 4)], BranchInst fs] \<and>
      find_bb (fn_blocks h') fs =
        Some \<lparr>bb_id = fs, bb_name = ''hdr.fake_selection'',
              bb_instrs = [CallInst (Some ''floor.selection_merge'') [ur],
                           CondBranchInst (Value 0) 2 3]\<rparr> \<and>
      find_bb (fn_blocks h') ur =
        Some \<lparr>bb_id = ur, bb_name = ''hdr.unreachable'',
              bb_instrs = [CallInst (Some ''floor.merge_block'') [], UnreachableInst]\<rparr>)"
proof -
  have n: "needs_fake_selection loop_hdr"
    by (simp add: needs_fake_selection_def loop_hdr_def condition_node_def plain_node_def
          plain_terminator_def)
  have c: "condition (ir_terminator loop_hdr) = Some (Value 0)"
    and t: "true_block (ir_terminator loop_hdr) = Some 2"
    and f: "false_block (ir_terminator loop_hdr) = Some 3"
    and nm: "name loop_hdr = ''hdr''"
    by (simp_all add: loop_hdr_def condition_node_def plain_node_def plain_terminator_def)
  have i: "instrs_of (fn_blocks loop_host) (BB loop_hdr) =
     Some [PHINode 7 [(Value 1, 0), (Value 2, 4)], CondBranchInst (Value 0) 2 3]"
    by (simp add: instrs_of_def loop_host_def loop_hdr_def condition_node_def plain_node_def)
  have w: "without_terminator [PHINode 7 [(Value 1, 0), (Value 2, 4)], CondBranchInst (Value 0) 2 3] =
      [PHINode 7 [(Value 1, 0), (Value 2, 4)]]"
    by (simp add: without_terminator_def getTerminator_def)
  from fake_selection_wraps_conditional[OF n c t f i]
  obtain h' fs ur where
    "add_or_update_terminator loop_host loop_hdr = Inr (h', loop_hdr\<lparr>phi_override := Some fs\<rparr>)"
    "instrs_of (fn_blocks h') (BB loop_hdr) =
       Some (without_terminator [PHINode 7 [(Value 1, 0), (Value 2, 4)], CondBranchInst (Value 0) 2 3] @
             [BranchInst fs])"
    "find_bb (fn_blocks h') fs =
        Some \<lparr>bb_id = fs, bb_name = name loop_hdr @ ''.fake_selection'',
              bb_instrs = [CallInst (Some ''floor.selection_merge'') [ur],
                           CondBranchInst (Value 0) 2 3]\<rparr>"
    "find_bb (fn_blocks h') ur =
        Some \<lparr>bb_id = ur, bb_name = name loop_hdr @ ''.unreachable'',
              bb_instrs = [CallInst (Some ''floor.merge_block'') [], UnreachableInst]\<rparr>"
    by blast
  then have "\<exists>h' fs ur.
      add_or_update_terminator loop_host loop_hdr = Inr (h', loop_hdr\<lparr>phi_override := Some fs\<rparr>) \<and>
      instrs_of (fn_blocks h') (BB loop_hdr) =
        Some [PHINode 7 [(Value 1, 0), (Value 2, 4)], BranchInst fs] \<and>
      find_bb (fn_blocks h') fs =
        Some \<lparr>bb_id = fs, bb_name = ''hdr.fake_selection'',
              bb_instrs = [CallInst (Some ''floor.selection_merge'') [ur],
                           CondBranchInst (Value 0) 2 3]\<rparr> \<and>
      find_bb (fn_blocks h') ur =
        Some \<lparr>bb_id = ur, bb_name = ''hdr.unreachable'',
              bb_instrs = [CallInst (Some ''floor.merge_block'') [], UnreachableInst]\<rparr>"
    unfolding w nm by (intro exI[of _ h'] exI[of _ fs] exI[of _ ur]) simp
  with n c t f i show ?thesis by (intro conjI)
qed

theorem loop_merge_fake_blocks_witness:
  "merge (self_loop_node None None) = Loop \<and>
   terminator_of (fn_blocks self_loop_host) 0 = Some (BranchInst 0) \<and>
   terminator_of (fn_blocks self_loop_host) 1 = Some (ReturnInst None) \<and>
   instrs_of (fn_blocks self_loop_host) 0 = Some [PHINode 3 [(Value 1, 0)], BranchInst 0] \<and>
   add_merge_annotation 0 self_loop_host (self_loop_node None None) = Inl InvalidLoopMerge \<and>
   (\<exists>h' fc ne.
      add_merge_annotation 0 self_loop_host (self_loop_node (Some 1) None) = Inr h' \<and>
      find_bb (fn_blocks h') fc =
        Some \<lparr>bb_id = fc, bb_name = ''h.fake_continue'',
              bb_instrs = [CallInst (Some ''floor.continue_block'') [], BranchInst 0]\<rparr> \<and>
      find_bb (fn_blocks h') ne =
        Some \<lparr>bb_id = ne, bb_name = ''h.new_entry.fake_continue'', bb_instrs = [BranchInst 0]\<rparr> \<and>
      map bb_id (fn_blocks h') = [ne, fc, 0, 1] \<and>
      instrs_of (fn_blocks h') 0 =
        Some [PHINode 3 [(Value 1, 0), (UndefValue, fc)],
              CallInst (Some ''floor.loop_merge'') [1, fc], BranchInst 0]) \<and>
   (\<exists>h' fm.
      add_merge_annotation 0 self_loop_host (self_loop_node None (Some 0)) = Inr h' \<and>
      find_bb (fn_blocks h') fm =
        Some \<lparr>bb_id = fm, bb_name = ''h.fake_merge'',
              bb_instrs = [CallInst (Some ''floor.merge_block'') [], UnreachableInst]\<rparr>)"
proof -
  have m: "\<And>m c. merge (self_loop_node m c) = Loop"
    and b: "\<And>m c. BB (self_loop_node m c) = 0"
    and nm: "\<And>m c. name (self_loop_node m c) = ''h''"
    and mi: "\<And>m c. merge_block (ir_merge_info (self_loop_node m c)) = m"
      "\<And>m c. continue_block (ir_merge_info (self_loop_node m c)) = c"
    by (simp_all add: self_loop_node_def branch_node_def plain_node_def)
  have t0: "terminator_of (fn_blocks self_loop_host) 0 = Some (BranchInst 0)"
    and t1: "terminator_of (fn_blocks self_loop_host) 1 = Some (ReturnInst None)"
    and i0: "instrs_of (fn_blocks self_loop_host) 0 = Some [PHINode 3 [(Value 1, 0)], BranchInst 0]"
    and ids: "map bb_id (fn_blocks self_loop_host) = [0, 1]"
    by (simp_all add: self_loop_host_def terminator_of_def instrs_of_def getTerminator_def)
  have lc: "loop_continue_bb (self_loop_node None (Some 0)) 0 = 0"
    by (simp add: loop_continue_bb_def self_loop_node_def branch_node_def plain_node_def)
  note A = loop_merge_fake_blocks[of "self_loop_node None None" self_loop_host "BranchInst 0"
      "[PHINode 3 [(Value 1, 0)], BranchInst 0]" 0, unfolded b mi, OF m t0 i0]
  note B = loop_merge_fake_blocks[of "self_loop_node (Some 1) None" self_loop_host "BranchInst 0"
      "[PHINode 3 [(Value 1, 0)], BranchInst 0]" 0, unfolded b mi nm, OF m t0 i0]
  note C = loop_merge_fake_blocks[of "self_loop_node None (Some 0)" self_loop_host "BranchInst 0"
      "[PHINode 3 [(Value 1, 0)], BranchInst 0]" 0, unfolded b mi nm, OF m t0 i0]
  from A have 1: "add_merge_annotation 0 self_loop_host (self_loop_node None None) = Inl InvalidLoopMerge"
    by simp
  from B t1 obtain h' fc ne where
    r: "add_merge_annotation 0 self_loop_host (self_loop_node (Some 1) None) = Inr h'"
    "fc \<notin> bb_id ` set (fn_blocks self_loop_host)"
    "find_bb (fn_blocks h') fc =
        Some \<lparr>bb_id = fc, bb_name = ''h.fake_continue'',
              bb_instrs = [CallInst (Some ''floor.continue_block'') [], BranchInst 0]\<rparr>"
    "find_bb (fn_blocks h') ne =
        Some \<lparr>bb_id = ne, bb_name = ''h.new_entry.fake_continue'', bb_instrs = [BranchInst 0]\<rparr>"
    "map bb_id (fn_blocks h') =
       takeWhile (\<lambda>x. x \<noteq> 0) (map bb_id (fn_blocks self_loop_host)) @ [ne] @ [fc] @
       dropWhile (\<lambda>x. x \<noteq> 0) (map bb_id (fn_blocks self_loop_host))"
    "instrs_of (fn_blocks h') 0 =
       Some (map (add_undef fc) (takeWhile isPHI [PHINode 3 [(Value 1, 0)], BranchInst 0]) @
             butlast (dropWhile isPHI [PHINode 3 [(Value 1, 0)], BranchInst 0]) @
             loop_markers 0 1 fc 0 @ [BranchInst 0])"
    by auto
  from r(2) have "fc \<noteq> 0" by (auto simp: self_loop_host_def)
  with r have 2: "\<exists>h' fc ne.
      add_merge_annotation 0 self_loop_host (self_loop_node (Some 1) None) = Inr h' \<and>
      find_bb (fn_blocks h') fc =
        Some \<lparr>bb_id = fc, bb_name = ''h.fake_continue'',
              bb_instrs = [CallInst (Some ''floor.continue_block'') [], BranchInst 0]\<rparr> \<and>
      find_bb (fn_blocks h') ne =
        Some \<lparr>bb_id = ne, bb_name = ''h.new_entry.fake_continue'', bb_instrs = [BranchInst 0]\<rparr> \<and>
      map bb_id (fn_blocks h') = [ne, fc, 0, 1] \<and>
      instrs_of (fn_blocks h') 0 =
        Some [PHINode 3 [(Value 1, 0), (UndefValue, fc)],
              CallInst (Some ''floor.loop_merge'') [1, fc], BranchInst 0]"
    by (intro exI[of _ h'] exI[of _ fc] exI[of _ ne]) (simp add: ids loop_markers_def)
  from C t0 lc obtain h'' fm where
    "add_merge_annotation 0 self_loop_host (self_loop_node None (Some 0)) = Inr h''"
    "find_bb (fn_blocks h'') fm =
        Some \<lparr>bb_id = fm, bb_name = ''h.fake_merge'',
              bb_instrs = [CallInst (Some ''floor.merge_block'') [], UnreachableInst]\<rparr>"
    by auto
  then have 3: "\<exists>h' fm.
      add_merge_annotation 0 self_loop_host (self_loop_node None (Some 0)) = Inr h' \<and>
      find_bb (fn_blocks h') fm =
        Some \<lparr>bb_id = fm, bb_name = ''h.fake_merge'',
              bb_instrs = [CallInst (Some ''floor.merge_block'') [], UnreachableInst]\<rparr>"
    by blast
  from m[of None None] t0 t1 i0 1 2 3 show ?thesis by (intro conjI)
qed

theorem duplicate_incoming_blocks_rematerialized_witness:
  "translate_incoming [0, 3] [] [(Value 1, 0), (Value 1, 0), (Value 2, 3)] =
     Inr [\<lparr>block = 0, ivalue = Value 1\<rparr>, \<lparr>block = 3, ivalue = Value 2\<rparr>] \<and>
   update_incoming [] [0, 3] [0, 3, 0]
     \<lparr>phi = 5, incoming = [\<lparr>block = 0, ivalue = Value 1\<rparr>, \<lparr>block = 3, ivalue = Value 2\<rparr>]\<rparr> =
     Inr [(Value 1, 0), (Value 2, 3), (Value 1, 0)] \<and>
   (\<exists>extra.
      update_incoming [] [0, 3] [0, 3, 0]
        \<lparr>phi = 5, incoming = [\<lparr>block = 0, ivalue = Value 1\<rparr>, \<lparr>block = 3, ivalue = Value 2\<rparr>]\<rparr> =
        Inr ([(Value 1, 0), (Value 2, 3)] @ extra) \<and>
      mset (map snd ([(Value 1, 0), (Value 2, 3)] @ extra)) = mset [0, 3, 0] \<and>
      length ([(Value 1, 0), (Value 2, 3)] @ extra) = 3)"
proof -
  let ?piter = "\<lparr>phi = 5, incoming = [\<lparr>block = 0, ivalue = Value 1\<rparr>, \<lparr>block = 3, ivalue = Value 2\<rparr>]\<rparr>"
  have t: "translate_incoming [0, 3] [] [(Value 1, 0), (Value 1, 0), (Value 2, 3)] =
     Inr [\<lparr>block = 0, ivalue = Value 1\<rparr>, \<lparr>block = 3, ivalue = Value 2\<rparr>]"
    by (simp add: bb_map_at_def)
  have e: "emitted_incoming [] ?piter = [(Value 1, 0), (Value 2, 3)]"
    by (simp add: emitted_incoming_def incoming_bb_def)
  have 1: "incoming ?piter \<noteq> []" by simp
  have 2: "distinct (map snd (emitted_incoming [] ?piter))" unfolding e by simp
  have 3: "snd ` set (emitted_incoming [] ?piter) = {p \<in> set [0, 3, 0]. p \<in> set [0, 3]}"
    unfolding e by auto
  have f: "filter (\<lambda>p. p \<in> set [0, 3]) [0, 3, 0] = [0, 3, 0::nat]" by simp
  have u: "update_incoming [] [0, 3] [0, 3, 0] ?piter = Inr [(Value 1, 0), (Value 2, 3), (Value 1, 0)]"
    by (simp add: update_incoming_def incoming_bb_def)
  from duplicate_incoming_blocks_rematerialized[OF t 1 2 3]
  have "\<exists>extra.
      update_incoming [] [0, 3] [0, 3, 0] ?piter = Inr ([(Value 1, 0), (Value 2, 3)] @ extra) \<and>
      mset (map snd ([(Value 1, 0), (Value 2, 3)] @ extra)) = mset [0, 3, 0] \<and>
      length ([(Value 1, 0), (Value 2, 3)] @ extra) = 3"
    unfolding e f by auto
  with t u show ?thesis by (intro conjI)
qed

theorem phi_incoming_rewritten_through_override_witness:
  "update_phis loop_pool_terminators [5, 3, 4, 2, 7, 1, 0] (fn_blocks loop_host_terminators)
     loop_pool_terminators = Inr loop_blocks_phis \<and>
   distinct (map BB loop_pool_terminators) \<and>
   loop_pool_terminators ! 2 \<in> set loop_pool_terminators \<and>
   BB (loop_pool_terminators ! 2) = 2 \<and>
   instrs_of (fn_blocks loop_host_terminators) 2 = Some [PHINode 9 [(Value 3, 1)], BranchInst 4] \<and>
   find_node loop_pool_terminators 1 = Some (loop_hdr\<lparr>phi_override := Some 7\<rparr>) \<and>
   instrs_of loop_blocks_phis 2 = Some [PHINode 9 [(Value 3, 7)], BranchInst 4] \<and>
   (\<exists>ys piter extra.
      instrs_of loop_blocks_phis 2 = Some ys \<and>
      find (\<lambda>elem. phi elem = 9) (ir_phi (loop_pool_terminators ! 2)) = Some piter \<and>
      ys ! 0 = PHINode 9 (map (\<lambda>i. (ivalue i, incoming_bb loop_pool_terminators (block i)))
                            (incoming piter) @ extra))"
proof -
  let ?n = "loop_pool_terminators ! 2"
  have n: "?n = (branch_node ''a'' 2 4)\<lparr>ir_phi := [\<lparr>phi = 9, incoming = [\<lparr>block = 1, ivalue = Value 3\<rparr>]\<rparr>]\<rparr>"
    by (simp add: loop_pool_terminators_def)
  have d: "distinct (map BB loop_pool_terminators)"
    by (simp add: ex_defs)
  have m: "?n \<in> set loop_pool_terminators" by (simp add: loop_pool_terminators_def)
  have b: "BB ?n = 2" unfolding n by (simp add: branch_node_def plain_node_def)
  then have r: "BB ?n \<in> set [5, 3, 4, 2, 7, 1, 0]" by simp
  have i: "instrs_of (fn_blocks loop_host_terminators) (BB ?n) = Some [PHINode 9 [(Value 3, 1)], BranchInst 4]"
    unfolding b by (simp add: instrs_of_def loop_host_terminators_def)
  have k: "0 < length [PHINode 9 [(Value 3, 1)], BranchInst 4]" by simp
  have x: "[PHINode 9 [(Value 3, 1)], BranchInst 4] ! 0 = PHINode 9 [(Value 3, 1)]" by simp
  have f: "find_node loop_pool_terminators 1 = Some (loop_hdr\<lparr>phi_override := Some 7\<rparr>)"
    by (simp add: ex_defs)
  have o: "instrs_of loop_blocks_phis 2 = Some [PHINode 9 [(Value 3, 7)], BranchInst 4]"
    by (simp add: instrs_of_def loop_blocks_phis_def)
  from phi_incoming_rewritten_through_override[OF loop_update_phis d m r i k x]
  have "\<exists>ys piter extra.
      instrs_of loop_blocks_phis 2 = Some ys \<and>
      find (\<lambda>elem. phi elem = 9) (ir_phi ?n) = Some piter \<and>
      ys ! 0 = PHINode 9 (map (\<lambda>i. (ivalue i, incoming_bb loop_pool_terminators (block i)))
                            (incoming piter) @ extra)"
    unfolding b by blast
  with loop_update_phis d m b i[unfolded b] f o show ?thesis by (intro conjI)
qed



theorem unchanged_switch_is_rewritten_witness:
  "update_terminator switch_host switch_node = Inr (switch_host, switch_node) \<and>
   keeps_terminator [SwitchInst (Value 0) 1 [(Value 7, 2)]] switch_node = Inr False"
  using unchanged_switch_is_rewritten by simp

end
